theory Spec2Isabelle
  imports
    Main
    "HOL-Library.Word"
    "HOL-Library.Char_ord"
    "HOL-Library.List_Lexorder"
    "HOL-Library.AList"
    "HOL-Library.Multiset"
begin

section \<open>The Stack Exchange client of \<^verbatim>\<open>stackexchange.go\<close>\<close>

text \<open>
  A shallow embedding of package \<^verbatim>\<open>goseapi\<close>. A Go \<^verbatim>\<open>string\<close> and a \<^verbatim>\<open>[]byte\<close> are
  byte sequences, here \<^typ>\<open>string\<close> (a list of 8-bit characters). A Go \<^verbatim>\<open>int\<close> is taken
  at its 64-bit width and read as a signed number with \<^term>\<open>sint\<close>; the package does no
  arithmetic on it, it only compares it with zero and prints it. A pointer that may be
  \<^verbatim>\<open>nil\<close> is an \<^typ>\<open>'a option\<close>.
\<close>

type_synonym go_int = "64 word"

subsection \<open>Library functions the package calls\<close>

text \<open>
  \<^verbatim>\<open>bytes.IndexByte(b, c)\<close>: the index of the first \<^verbatim>\<open>c\<close> in \<^verbatim>\<open>b\<close>; \<^term>\<open>None\<close> stands
  for the result \<^verbatim>\<open>-1\<close>.
\<close>

fun IndexByte :: "string \<Rightarrow> char \<Rightarrow> nat option" where
  "IndexByte [] c = None"
| "IndexByte (x # xs) c = (if x = c then Some 0 else map_option Suc (IndexByte xs c))"

text \<open>
  \<^verbatim>\<open>strconv\<close>: \<^verbatim>\<open>FormatInt(i, 10)\<close> writes the decimal digits of the magnitude of \<^verbatim>\<open>i\<close>,
  most significant first, after a minus sign when \<^verbatim>\<open>i\<close> is negative;
  \<^verbatim>\<open>AppendInt(dst, i, 10)\<close> appends that text to \<^verbatim>\<open>dst\<close>, and \<^verbatim>\<open>Itoa(i)\<close> is
  \<^verbatim>\<open>FormatInt(int64(i), 10)\<close>.
\<close>

definition digits :: string where
  "digits = ''0123456789''"

function formatUint :: "nat \<Rightarrow> string" where
  "formatUint u =
     (if u < 10 then [digits ! u] else formatUint (u div 10) @ [digits ! (u mod 10)])"
  by pat_completeness auto
termination
  by (relation "measure id") auto

declare formatUint.simps [simp del]

definition FormatInt :: "int \<Rightarrow> string" where
  "FormatInt i = (if i < 0 then CHR ''-'' # formatUint (nat (- i)) else formatUint (nat i))"

definition AppendInt :: "string \<Rightarrow> int \<Rightarrow> string" where
  "AppendInt dst i = dst @ FormatInt i"

definition Itoa :: "go_int \<Rightarrow> string" where
  "Itoa i = FormatInt (sint i)"

text \<open>
  \<^verbatim>\<open>net/url\<close>: \<^verbatim>\<open>QueryEscape\<close> keeps letters, digits and \<^verbatim>\<open>- _ . ~\<close>, writes a space as
  \<^verbatim>\<open>+\<close> and every other byte as \<^verbatim>\<open>%XX\<close> in upper-case hexadecimal.
\<close>

definition inRange :: "char \<Rightarrow> char \<Rightarrow> char \<Rightarrow> bool" where
  "inRange lo hi c = (lo \<le> c \<and> c \<le> hi)"

definition isAlnum :: "char \<Rightarrow> bool" where
  "isAlnum c =
     (inRange (CHR ''a'') (CHR ''z'') c
      \<or> inRange (CHR ''A'') (CHR ''Z'') c
      \<or> inRange (CHR ''0'') (CHR ''9'') c)"

definition shouldEscape :: "char \<Rightarrow> bool" where
  "shouldEscape c =
     (if isAlnum c then False
      else if c \<in> set ''-_.~'' then False
      else True)"

definition upperhex :: string where
  "upperhex = ''0123456789ABCDEF''"

definition escapeByte :: "char \<Rightarrow> string" where
  "escapeByte c =
     (if shouldEscape c then
        (if c = CHR '' '' then ''+''
         else [CHR ''%'', upperhex ! (of_char c div 16), upperhex ! (of_char c mod 16)])
      else [c])"

definition QueryEscape :: "string \<Rightarrow> string" where
  "QueryEscape s = concat (map escapeByte s)"

text \<open>
  \<^verbatim>\<open>url.Values\<close> is a Go map from a key to a list of values. It is an association list
  with one entry for each key; \<^verbatim>\<open>Set\<close> replaces the values of a key by a single one.
  The order of the entries carries no meaning: \<^verbatim>\<open>Encode\<close> walks the map with
  \<^verbatim>\<open>range\<close>, whose order Go leaves unspecified, so the walk is a parameter
  \<open>range_order\<close> that rearranges the keys. \<^verbatim>\<open>Encode\<close> sorts the keys it collected and
  writes \<^verbatim>\<open>key=value\<close> for every value of every key, with \<^verbatim>\<open>&\<close> before each pair but
  the first.
\<close>

type_synonym Values = "(string \<times> string list) list"

definition Values_Set :: "Values \<Rightarrow> string \<Rightarrow> string \<Rightarrow> Values" where
  "Values_Set v key val = AList.update key [val] v"

definition Values_Get :: "Values \<Rightarrow> string \<Rightarrow> string list" where
  "Values_Get v key = (case map_of v key of None \<Rightarrow> [] | Some vs \<Rightarrow> vs)"

definition writePair :: "string \<Rightarrow> string \<Rightarrow> string \<Rightarrow> string" where
  "writePair keyEscaped val buf =
     (if length buf > 0 then buf @ ''&'' else buf) @ keyEscaped @ ''='' @ QueryEscape val"

definition Values_Encode :: "(string list \<Rightarrow> string list) \<Rightarrow> Values \<Rightarrow> string" where
  "Values_Encode range_order v =
     (if length v = 0 then ''''
      else
        (let keys = sort (range_order (map fst v))
         in fold (\<lambda>k buf. fold (writePair (QueryEscape k)) (Values_Get v k) buf) keys ''''))"

subsection \<open>Constants\<close>

definition Version :: string where
  "Version = ''2.1''"

definition Root :: string where
  "Root = ''https://api.stackexchange.com/'' @ Version"

subsection \<open>Parameters and their serialization\<close>

record Params =
  Site :: string
  Sort :: string
  Order :: string
  Page :: go_int
  PageSize :: go_int
  Filter :: string
  Tagged :: string
  Args :: "string list"

text \<open>\<^verbatim>\<open>func (p *Params) values() url.Values\<close>, for a receiver that is not \<^verbatim>\<open>nil\<close>.\<close>

definition Params_values :: "Params \<Rightarrow> Values" where
  "Params_values p =
     (let vals = [(''site'', [Site p])];
          vals = (if Sort p \<noteq> '''' then Values_Set vals ''sort'' (Sort p) else vals);
          vals = (if Order p \<noteq> '''' then Values_Set vals ''order'' (Order p) else vals);
          vals = (if Params.Page p \<noteq> 0
                  then Values_Set vals ''page'' (Itoa (Params.Page p)) else vals);
          vals = (if Params.PageSize p \<noteq> 0
                  then Values_Set vals ''pagesize'' (Itoa (Params.PageSize p)) else vals);
          vals = (if Filter p \<noteq> '''' then Values_Set vals ''filter'' (Filter p) else vals);
          vals = (if Tagged p \<noteq> '''' then Values_Set vals ''tagged'' (Tagged p) else vals)
      in vals)"

subsection \<open>Placeholder substitution\<close>

text \<open>
  The loop of \<^verbatim>\<open>fillPlaceholders\<close>, with its three variables \<^verbatim>\<open>argIdx\<close>, \<^verbatim>\<open>buf\<close> and
  \<^verbatim>\<open>b\<close>. It returns them as they are when the loop is left, by its condition or by one
  of the two \<^verbatim>\<open>break\<close>s. Every turn that does not leave the loop advances \<^verbatim>\<open>argIdx\<close>.
\<close>

function fillLoop :: "string list \<Rightarrow> nat \<Rightarrow> string \<Rightarrow> string \<Rightarrow> string \<times> string \<times> nat" where
  "fillLoop args argIdx buf b =
     (if argIdx < length args \<and> length b > 0 then
        (case IndexByte b CHR ''{'' of
           None \<Rightarrow> (buf, b, argIdx)
         | Some i \<Rightarrow>
             (let buf1 = buf @ take i b; b1 = drop i b in
              case IndexByte b1 CHR ''}'' of
                None \<Rightarrow> (buf1, b1, argIdx)
              | Some j \<Rightarrow> fillLoop args (argIdx + 1) (buf1 @ args ! argIdx) (drop (j + 1) b1)))
      else (buf, b, argIdx))"
  by pat_completeness auto
termination
  by (relation "measure (\<lambda>(args, argIdx, buf, b). length args - argIdx)") auto

declare fillLoop.simps [simp del]

definition fillPlaceholders :: "string \<Rightarrow> string list \<Rightarrow> string" where
  "fillPlaceholders s args =
     (if length s = 0 \<or> length args = 0 then s
      else (case fillLoop args 0 [] s of
              (buf, b, argIdx) \<Rightarrow> if length b > 0 then buf @ b else buf))"

text \<open>
  The value of \<^verbatim>\<open>argIdx\<close> when \<^verbatim>\<open>fillPlaceholders\<close> returns: the number of arguments
  it has used (none on the early return).
\<close>

definition argsConsumed :: "string \<Rightarrow> string list \<Rightarrow> nat" where
  "argsConsumed s args =
     (if length s = 0 \<or> length args = 0 then 0
      else (case fillLoop args 0 [] s of (buf, b, argIdx) \<Rightarrow> argIdx))"

subsection \<open>Joining identifiers\<close>

fun JoinIDs_loop :: "go_int list \<Rightarrow> string \<Rightarrow> string" where
  "JoinIDs_loop [] buf = buf"
| "JoinIDs_loop (i # ids) buf =
     JoinIDs_loop ids (AppendInt (if length buf > 0 then buf @ '';'' else buf) (sint i))"

definition JoinIDs :: "go_int list \<Rightarrow> string" where
  "JoinIDs ids = JoinIDs_loop ids ''''"

subsection \<open>Decoding a response\<close>

text \<open>
  The local struct \<^verbatim>\<open>result\<close> of \<^verbatim>\<open>parseResponse\<close>. Its field \<^verbatim>\<open>Items\<close> wraps the
  caller's destination \<^verbatim>\<open>v\<close>; the record holds what \<^verbatim>\<open>v\<close> points to, of any type
  \<^typ>\<open>'v\<close>.
\<close>

record 'v result =
  Items :: 'v
  ErrorID :: go_int
  ErrorName :: string
  ErrorMessage :: string
  Page :: go_int
  PageSize :: go_int
  HasMore :: bool
  Backoff :: go_int
  QuotaMax :: go_int
  QuotaRemaining :: go_int
  Total :: go_int
  Type :: string

text \<open>
  Modelled from the spec: the declarations of the types \<^verbatim>\<open>Error\<close> and \<^verbatim>\<open>Wrapper\<close> are
  not in the source file. Their fields are those of the response envelope of the
  specification, under the names and with the types that the composite literal at the end
  of \<^verbatim>\<open>parseResponse\<close> gives them.
\<close>

record Error =
  ID :: go_int
  Name :: string
  Message :: string

record Wrapper =
  Error :: Error
  Page :: go_int
  PageSize :: go_int
  HasMore :: bool
  Backoff :: go_int
  QuotaMax :: go_int
  QuotaRemaining :: go_int
  Total :: go_int
  Type :: string

text \<open>\<^verbatim>\<open>var result struct {...}\<close> followed by \<^verbatim>\<open>result.Items = items{v}\<close>.\<close>

definition zero_result :: "'v \<Rightarrow> 'v result" where
  "zero_result v =
     \<lparr>Items = v, ErrorID = 0, ErrorName = '''', ErrorMessage = '''',
      Page = 0, PageSize = 0, HasMore = False,
      Backoff = 0, QuotaMax = 0, QuotaRemaining = 0, Total = 0, Type = ''''\<rparr>"

text \<open>
  \<^verbatim>\<open>encoding/json\<close> is outside the package and is a parameter of the model.
  \<open>json_Unmarshal data val\<close> decodes \<open>data\<close> into the destination and returns the
  destination and an error, if any. \<open>json_Decode r unmarshalItems result\<close> reads one
  JSON value from \<open>r\<close> into \<open>result\<close>, handing the bytes of the member \<^verbatim>\<open>items\<close> to the
  method \<^verbatim>\<open>UnmarshalJSON\<close> of the field \<^verbatim>\<open>Items\<close>; it returns the struct as it has left
  it and an error, if any. Neither panics: malformed input is an error value.
\<close>

definition items_UnmarshalJSON ::
  "(string \<Rightarrow> 'v \<Rightarrow> 'v \<times> 'e option) \<Rightarrow> 'v \<Rightarrow> string \<Rightarrow> 'v \<times> 'e option" where
  "items_UnmarshalJSON json_Unmarshal val data = json_Unmarshal data val"

text \<open>
  \<^verbatim>\<open>parseResponse\<close> returns the pointer to a new \<^verbatim>\<open>Wrapper\<close> and the decoder's error; the
  third component is the destination after the call.
\<close>

definition parseResponse ::
  "('r \<Rightarrow> ('v \<Rightarrow> string \<Rightarrow> 'v \<times> 'e option) \<Rightarrow> 'v result \<Rightarrow> 'v result \<times> 'e option)
     \<Rightarrow> (string \<Rightarrow> 'v \<Rightarrow> 'v \<times> 'e option) \<Rightarrow> 'r \<Rightarrow> 'v
     \<Rightarrow> Wrapper option \<times> 'e option \<times> 'v" where
  "parseResponse json_Decode json_Unmarshal r v =
     (case json_Decode r (items_UnmarshalJSON json_Unmarshal) (zero_result v) of
        (result, err) \<Rightarrow>
          (Some \<lparr>Error = \<lparr>ID = ErrorID result, Name = ErrorName result,
                          Message = ErrorMessage result\<rparr>,
                 Page = result.Page result,
                 PageSize = result.PageSize result,
                 HasMore = result.HasMore result,
                 Backoff = result.Backoff result,
                 QuotaMax = result.QuotaMax result,
                 QuotaRemaining = result.QuotaRemaining result,
                 Total = result.Total result,
                 Type = result.Type result\<rparr>,
           err,
           Items result))"

subsection \<open>The client and its request\<close>

text \<open>
  The field \<^verbatim>\<open>Root\<close> of a client is \<open>Root'\<close>, the constant of the package keeping the
  name. \<^typ>\<open>'h\<close> is the type of an HTTP client.
\<close>

record 'h Client =
  Client :: "'h option"
  Root' :: string
  AccessToken :: string
  Key :: string

definition DefaultClient :: "'h Client option" where
  "DefaultClient = None"

datatype panic = NilPointerDereference

text \<open>The package variable \<^verbatim>\<open>Verbose\<close>, and the lines written by \<^verbatim>\<open>fmt.Println\<close>.\<close>

record globals =
  Verbose :: bool
  stdout :: "string list"

text \<open>
  The first part of \<^verbatim>\<open>(*Client).Do\<close>, up to the call of \<^verbatim>\<open>client.Get(req)\<close>. A guard
  \<^verbatim>\<open>c != nil && c.F ...\<close> reads \<^verbatim>\<open>c.F\<close> only when \<^verbatim>\<open>c\<close> is not \<^verbatim>\<open>nil\<close>, which is a case
  distinction on \<open>c\<close>; \<^verbatim>\<open>params\<close> is dereferenced without a guard. The result is the
  HTTP client chosen, the URL \<^verbatim>\<open>req\<close>, and what \<^verbatim>\<open>c\<close> and \<^verbatim>\<open>params\<close> point to and the
  globals as the code leaves them: it assigns to no field of \<^verbatim>\<open>c\<close> or \<^verbatim>\<open>params\<close>, and
  writes to the standard output when \<^verbatim>\<open>Verbose\<close> is set.
\<close>

definition Do_request ::
  "(string list \<Rightarrow> string list) \<Rightarrow> 'h \<Rightarrow> 'h Client option \<Rightarrow> string \<Rightarrow> Params option \<Rightarrow> globals
     \<Rightarrow> panic + ('h \<times> string \<times> 'h Client option \<times> Params option \<times> globals)" where
  "Do_request range_order http_DefaultClient c path params g =
     (let client = (case c of None \<Rightarrow> http_DefaultClient
                    | Some c' \<Rightarrow>
                        (case Client c' of None \<Rightarrow> http_DefaultClient | Some h \<Rightarrow> h));
          root = (case c of None \<Rightarrow> Root
                  | Some c' \<Rightarrow> if Root' c' \<noteq> '''' then Root' c' else Root)
      in case params of
           None \<Rightarrow> Inl NilPointerDereference
         | Some p \<Rightarrow>
             (let vals = Params_values p;
                  vals = (case c of None \<Rightarrow> vals
                          | Some c' \<Rightarrow>
                              if AccessToken c' \<noteq> ''''
                              then Values_Set vals ''access_token'' (AccessToken c') else vals);
                  vals = (case c of None \<Rightarrow> vals
                          | Some c' \<Rightarrow>
                              if Key c' \<noteq> '''' then Values_Set vals ''key'' (Key c') else vals);
                  req = root @ fillPlaceholders path (Args p) @ ''?''
                          @ Values_Encode range_order vals;
                  g' = (if Verbose g then g\<lparr>stdout := stdout g @ [req]\<rparr> else g)
              in Inr (client, req, c, Some p, g')))"

text \<open>The URL of a request, or the panic that ended it.\<close>

definition request_url ::
  "panic + ('h \<times> string \<times> 'h Client option \<times> Params option \<times> globals) \<Rightarrow> panic + string" where
  "request_url r = (case r of Inl e \<Rightarrow> Inl e | Inr (client, req, rest) \<Rightarrow> Inr req)"

text \<open>
  The whole of \<^verbatim>\<open>(*Client).Do\<close>: \<open>http_Get\<close> is the transport, returning an error or a
  response body. A transport error gives \<^verbatim>\<open>(nil, err)\<close> and leaves the destination as it
  was.
\<close>

definition Client_Do ::
  "(string list \<Rightarrow> string list) \<Rightarrow> 'h \<Rightarrow> ('h \<Rightarrow> string \<Rightarrow> 'e + 'r)
     \<Rightarrow> ('r \<Rightarrow> ('v \<Rightarrow> string \<Rightarrow> 'v \<times> 'e option) \<Rightarrow> 'v result \<Rightarrow> 'v result \<times> 'e option)
     \<Rightarrow> (string \<Rightarrow> 'v \<Rightarrow> 'v \<times> 'e option)
     \<Rightarrow> 'h Client option \<Rightarrow> string \<Rightarrow> 'v \<Rightarrow> Params option \<Rightarrow> globals
     \<Rightarrow> panic + ((Wrapper option \<times> 'e option \<times> 'v) \<times> 'h Client option \<times> Params option \<times> globals)"
  where
  "Client_Do range_order http_DefaultClient http_Get json_Decode json_Unmarshal c path v params g =
     (case Do_request range_order http_DefaultClient c path params g of
        Inl e \<Rightarrow> Inl e
      | Inr (client, req, c', params', g') \<Rightarrow>
          (case http_Get client req of
             Inl err \<Rightarrow> Inr ((None, Some err, v), c', params', g')
           | Inr body \<Rightarrow>
               Inr (parseResponse json_Decode json_Unmarshal body v, c', params', g')))"

text \<open>The package function \<^verbatim>\<open>Do\<close>: \<^verbatim>\<open>DefaultClient.Do(path, v, params)\<close>.\<close>

definition Do ::
  "(string list \<Rightarrow> string list) \<Rightarrow> 'h \<Rightarrow> ('h \<Rightarrow> string \<Rightarrow> 'e + 'r)
     \<Rightarrow> ('r \<Rightarrow> ('v \<Rightarrow> string \<Rightarrow> 'v \<times> 'e option) \<Rightarrow> 'v result \<Rightarrow> 'v result \<times> 'e option)
     \<Rightarrow> (string \<Rightarrow> 'v \<Rightarrow> 'v \<times> 'e option)
     \<Rightarrow> string \<Rightarrow> 'v \<Rightarrow> Params option \<Rightarrow> globals
     \<Rightarrow> panic + ((Wrapper option \<times> 'e option \<times> 'v) \<times> 'h Client option \<times> Params option \<times> globals)"
  where
  "Do range_order http_DefaultClient http_Get json_Decode json_Unmarshal path v params g =
     Client_Do range_order http_DefaultClient http_Get json_Decode json_Unmarshal
       DefaultClient path v params g"

subsection \<open>The JSON decoder\<close>

text \<open>
  \<^verbatim>\<open>json.NewDecoder(r).Decode(&result)\<close> for the struct of \<^verbatim>\<open>parseResponse\<close>, after the
  behaviour of \<^verbatim>\<open>encoding/json\<close>. The reader is the text it delivers. The decoder reads
  the first JSON value of the text and leaves what follows; it then stores the members of
  an object in the fields that their keys name. Errors are told apart by their kind only:
  \<open>InputError\<close> stands for \<^verbatim>\<open>io.EOF\<close>, \<^verbatim>\<open>io.ErrUnexpectedEOF\<close> and a
  \<^verbatim>\<open>*json.SyntaxError\<close>.
\<close>

datatype json_error = InputError | UnmarshalTypeError | InvalidUnmarshalError

definition isSpace :: "char \<Rightarrow> bool" where
  "isSpace c = (c = CHR '' '' \<or> c = CHR 0x09 \<or> c = CHR 0x0D \<or> c = CHR 0x0A)"

definition skipSpace :: "string \<Rightarrow> string" where
  "skipSpace s = dropWhile isSpace s"

definition isDigit :: "char \<Rightarrow> bool" where
  "isDigit c = inRange (CHR ''0'') (CHR ''9'') c"

definition isHex :: "char \<Rightarrow> bool" where
  "isHex c =
     (isDigit c \<or> inRange (CHR ''a'') (CHR ''f'') c \<or> inRange (CHR ''A'') (CHR ''F'') c)"

text \<open>
  The scanner. Each function takes the text at the place it starts to read and returns
  the text behind what it has read, or \<^term>\<open>None\<close> when the text is not JSON or ends too
  early. \<open>scanString\<close> starts behind the opening quote.
\<close>

function scanString :: "string \<Rightarrow> string option" where
  "scanString s =
     (case s of
        [] \<Rightarrow> None
      | c # t \<Rightarrow>
          if c = CHR 0x22 then Some t
          else if c = CHR 0x5C then
            (case t of
               [] \<Rightarrow> None
             | e # u \<Rightarrow>
                 if e \<in> set [CHR 0x22, CHR 0x5C, CHR ''/'', CHR ''b'', CHR ''f'', CHR ''n'',
                              CHR ''r'', CHR ''t'']
                 then scanString u
                 else if e = CHR ''u'' \<and> 4 \<le> length u \<and> list_all isHex (take 4 u)
                 then scanString (drop 4 u)
                 else None)
          else if (of_char c :: nat) < 32 then None
          else scanString t)"
  by pat_completeness auto
termination
  by (relation "measure length") auto

declare scanString.simps [simp del]

definition scanExponent :: "string \<Rightarrow> string option" where
  "scanExponent s =
     (case s of
        [] \<Rightarrow> Some s
      | c # t \<Rightarrow>
          if c = CHR ''e'' \<or> c = CHR ''E'' then
            (let u = (case t of
                        [] \<Rightarrow> t
                      | g # w \<Rightarrow> if g = CHR ''+'' \<or> g = CHR ''-'' then w else t)
             in case u of
                  [] \<Rightarrow> None
                | d # w \<Rightarrow> if isDigit d then Some (dropWhile isDigit w) else None)
          else Some s)"

definition scanFraction :: "string \<Rightarrow> string option" where
  "scanFraction s =
     (case s of
        [] \<Rightarrow> Some s
      | c # t \<Rightarrow>
          if c = CHR ''.'' then
            (case t of
               [] \<Rightarrow> None
             | d # w \<Rightarrow> if isDigit d then scanExponent (dropWhile isDigit w) else None)
          else scanExponent s)"

definition scanNumber :: "string \<Rightarrow> string option" where
  "scanNumber s =
     (let t = (case s of [] \<Rightarrow> s | c # u \<Rightarrow> if c = CHR ''-'' then u else s)
      in case t of
           [] \<Rightarrow> None
         | d # u \<Rightarrow>
             if d = CHR ''0'' then scanFraction u
             else if inRange (CHR ''1'') (CHR ''9'') d then scanFraction (dropWhile isDigit u)
             else None)"

definition maxNestingDepth :: nat where
  "maxNestingDepth = 10000"

text \<open>
  Values, the elements of an array and the members of an object. \<open>depth\<close> is the number
  of arrays and objects that are open; the first argument bounds the number of calls, and
  \<open>readValue\<close> gives two calls for every byte. \<open>scanMembers\<close> also returns the members
  it has read: the text of each key between its quotes and the text of each value.
\<close>

fun scanValue :: "nat \<Rightarrow> nat \<Rightarrow> string \<Rightarrow> string option"
  and scanElements :: "nat \<Rightarrow> nat \<Rightarrow> string \<Rightarrow> string option"
  and scanMembers :: "nat \<Rightarrow> nat \<Rightarrow> string \<Rightarrow> ((string \<times> string) list \<times> string) option"
  where
  "scanValue 0 depth s = None"
| "scanValue (Suc fuel) depth s =
     (case s of
        [] \<Rightarrow> None
      | c # t \<Rightarrow>
          if c = CHR ''{'' then
            (if maxNestingDepth \<le> depth then None
             else (case skipSpace t of
                     [] \<Rightarrow> None
                   | c' # u \<Rightarrow>
                       if c' = CHR ''}'' then Some u
                       else map_option snd (scanMembers fuel (Suc depth) (c' # u))))
          else if c = CHR ''['' then
            (if maxNestingDepth \<le> depth then None
             else (case skipSpace t of
                     [] \<Rightarrow> None
                   | c' # u \<Rightarrow>
                       if c' = CHR '']'' then Some u
                       else scanElements fuel (Suc depth) (c' # u)))
          else if c = CHR 0x22 then scanString t
          else if c = CHR ''-'' \<or> isDigit c then scanNumber s
          else if take 4 s = ''true'' then Some (drop 4 s)
          else if take 5 s = ''false'' then Some (drop 5 s)
          else if take 4 s = ''null'' then Some (drop 4 s)
          else None)"
| "scanElements 0 depth s = None"
| "scanElements (Suc fuel) depth s =
     (case scanValue fuel depth s of
        None \<Rightarrow> None
      | Some r \<Rightarrow>
          (case skipSpace r of
             [] \<Rightarrow> None
           | c # u \<Rightarrow>
               if c = CHR '','' then scanElements fuel depth (skipSpace u)
               else if c = CHR '']'' then Some u
               else None))"
| "scanMembers 0 depth s = None"
| "scanMembers (Suc fuel) depth s =
     (case s of
        [] \<Rightarrow> None
      | q # t \<Rightarrow>
          if q \<noteq> CHR 0x22 then None
          else
            (case scanString t of
               None \<Rightarrow> None
             | Some r \<Rightarrow>
                 (case skipSpace r of
                    [] \<Rightarrow> None
                  | c # u \<Rightarrow>
                      if c \<noteq> CHR '':'' then None
                      else
                        (let x = skipSpace u in
                         case scanValue fuel depth x of
                           None \<Rightarrow> None
                         | Some r' \<Rightarrow>
                             (let member = (take (length t - length r - 1) t,
                                            take (length x - length r') x)
                              in case skipSpace r' of
                                   [] \<Rightarrow> None
                                 | c' # w \<Rightarrow>
                                     if c' = CHR '','' then
                                       map_option (\<lambda>(ms, rest). (member # ms, rest))
                                         (scanMembers fuel depth (skipSpace w))
                                     else if c' = CHR ''}'' then Some ([member], w)
                                     else None)))))"

text \<open>The text of the first value of the input, leading white space skipped.\<close>

definition readValue :: "string \<Rightarrow> string option" where
  "readValue r =
     (let s = skipSpace r
      in case scanValue (2 * length s + 2) 0 s of
           None \<Rightarrow> None
         | Some rest \<Rightarrow> Some (take (length s - length rest) s))"

text \<open>The members of the text of an object, in their order.\<close>

definition objectMembers :: "string \<Rightarrow> (string \<times> string) list option" where
  "objectMembers raw =
     (case raw of
        [] \<Rightarrow> None
      | c # t \<Rightarrow>
          if c \<noteq> CHR ''{'' then None
          else (case skipSpace t of
                  [] \<Rightarrow> None
                | c' # u \<Rightarrow>
                    if c' = CHR ''}'' then Some []
                    else map_option fst (scanMembers (2 * length raw + 2) 1 (c' # u))))"

text \<open>
  \<^verbatim>\<open>utf8.EncodeRune\<close>, and the length of the valid UTF-8 sequence at the head of a text
  (\<open>0\<close> when there is none), as \<^verbatim>\<open>utf8.DecodeRune\<close> finds it.
\<close>

definition EncodeRune :: "nat \<Rightarrow> string" where
  "EncodeRune r =
     (if r < 0x80 then [char_of r]
      else if r < 0x800 then [char_of (0xC0 + r div 64), char_of (0x80 + r mod 64)]
      else if (0xD800 \<le> r \<and> r < 0xE000) \<or> 0x10FFFF < r
      then [CHR 0xEF, CHR 0xBF, CHR 0xBD]
      else if r < 0x10000
      then [char_of (0xE0 + r div 4096), char_of (0x80 + r div 64 mod 64),
            char_of (0x80 + r mod 64)]
      else [char_of (0xF0 + r div 262144), char_of (0x80 + r div 4096 mod 64),
            char_of (0x80 + r div 64 mod 64), char_of (0x80 + r mod 64)])"

definition byteIn :: "nat \<Rightarrow> nat \<Rightarrow> string \<Rightarrow> nat \<Rightarrow> bool" where
  "byteIn lo hi s k = (k < length s \<and> lo \<le> of_char (s ! k) \<and> (of_char (s ! k) :: nat) \<le> hi)"

definition runeLen :: "string \<Rightarrow> nat" where
  "runeLen s =
     (case s of
        [] \<Rightarrow> 0
      | c # t \<Rightarrow>
          (let a = (of_char c :: nat) in
           if a < 0x80 then 1
           else if 0xC2 \<le> a \<and> a \<le> 0xDF then (if byteIn 0x80 0xBF s 1 then 2 else 0)
           else if a = 0xE0
           then (if byteIn 0xA0 0xBF s 1 \<and> byteIn 0x80 0xBF s 2 then 3 else 0)
           else if a = 0xED
           then (if byteIn 0x80 0x9F s 1 \<and> byteIn 0x80 0xBF s 2 then 3 else 0)
           else if 0xE1 \<le> a \<and> a \<le> 0xEF
           then (if byteIn 0x80 0xBF s 1 \<and> byteIn 0x80 0xBF s 2 then 3 else 0)
           else if a = 0xF0
           then (if byteIn 0x90 0xBF s 1 \<and> byteIn 0x80 0xBF s 2 \<and> byteIn 0x80 0xBF s 3
                 then 4 else 0)
           else if 0xF1 \<le> a \<and> a \<le> 0xF3
           then (if byteIn 0x80 0xBF s 1 \<and> byteIn 0x80 0xBF s 2 \<and> byteIn 0x80 0xBF s 3
                 then 4 else 0)
           else if a = 0xF4
           then (if byteIn 0x80 0x8F s 1 \<and> byteIn 0x80 0xBF s 2 \<and> byteIn 0x80 0xBF s 3
                 then 4 else 0)
           else 0))"

text \<open>
  The value of four hexadecimal digits, and the text of a string literal between its
  quotes as a Go string (\<^verbatim>\<open>unquote\<close>): escapes are resolved, a pair of surrogates is one
  rune, a lone surrogate and every byte that is not part of valid UTF-8 become U+FFFD.
\<close>

definition hexValue :: "char \<Rightarrow> nat" where
  "hexValue c =
     (if isDigit c then of_char c - 48
      else if inRange (CHR ''a'') (CHR ''f'') c then of_char c - 87
      else of_char c - 55)"

definition getu4 :: "string \<Rightarrow> nat option" where
  "getu4 s =
     (if 6 \<le> length s \<and> take 2 s = [CHR 0x5C, CHR ''u''] \<and> list_all isHex (take 4 (drop 2 s))
      then Some (foldl (\<lambda>a c. 16 * a + hexValue c) 0 (take 4 (drop 2 s)))
      else None)"

definition escapeChar :: "char \<Rightarrow> char" where
  "escapeChar e =
     (if e = CHR ''b'' then CHR 0x08
      else if e = CHR ''f'' then CHR 0x0C
      else if e = CHR ''n'' then CHR 0x0A
      else if e = CHR ''r'' then CHR 0x0D
      else if e = CHR ''t'' then CHR 0x09
      else e)"

function unquote :: "string \<Rightarrow> string" where
  "unquote s =
     (case s of
        [] \<Rightarrow> []
      | c # t \<Rightarrow>
          if c = CHR 0x5C then
            (case getu4 s of
               Some rr \<Rightarrow>
                 (if 0xD800 \<le> rr \<and> rr < 0xE000 then
                    (case getu4 (drop 6 s) of
                       Some rr1 \<Rightarrow>
                         if rr < 0xDC00 \<and> 0xDC00 \<le> rr1 \<and> rr1 < 0xE000
                         then EncodeRune ((rr - 0xD800) * 1024 + (rr1 - 0xDC00) + 0x10000)
                                @ unquote (drop 12 s)
                         else EncodeRune 0xFFFD @ unquote (drop 6 s)
                     | None \<Rightarrow> EncodeRune 0xFFFD @ unquote (drop 6 s))
                  else EncodeRune rr @ unquote (drop 6 s))
             | None \<Rightarrow>
                 (case t of
                    [] \<Rightarrow> []
                  | e # u \<Rightarrow> escapeChar e # unquote u))
          else if (of_char c :: nat) < 0x80 then c # unquote t
          else if runeLen s = 0 then EncodeRune 0xFFFD @ unquote t
          else take (runeLen s) s @ unquote (drop (runeLen s) s))"
  by pat_completeness auto
termination
  by (relation "measure length") (auto simp add: getu4_def)

declare unquote.simps [simp del]

text \<open>
  \<^verbatim>\<open>strconv.ParseInt(s, 10, 64)\<close>: an optional sign and decimal digits that denote a
  number of 64 bits.
\<close>

definition ParseInt :: "string \<Rightarrow> int option" where
  "ParseInt s =
     (let neg = (take 1 s = ''-'');
          ds = (if neg \<or> take 1 s = ''+'' then drop 1 s else s)
      in if ds = [] \<or> \<not> list_all isDigit ds then None
         else
           (let n = foldl (\<lambda>a c. 10 * a + (int (of_char c) - 48)) 0 ds;
                i = (if neg then - n else n)
            in if - (2 ^ 63) \<le> i \<and> i < 2 ^ 63 then Some i else None))"

text \<open>
  The fields of the struct in their order, with the names of their \<^verbatim>\<open>json\<close> tags. A key
  names the field whose tag it is, or else the first field whose tag it is when case is
  ignored. Ignoring case also takes U+017F for \<^verbatim>\<open>s\<close> and U+212A for \<^verbatim>\<open>k\<close>; no other rune
  outside ASCII folds to a letter of a tag.
\<close>

datatype result_field =
  FItems | FErrorID | FErrorName | FErrorMessage | FPage | FPageSize | FHasMore
  | FBackoff | FQuotaMax | FQuotaRemaining | FTotal | FType

definition fields :: "result_field list" where
  "fields = [FItems, FErrorID, FErrorName, FErrorMessage, FPage, FPageSize, FHasMore,
             FBackoff, FQuotaMax, FQuotaRemaining, FTotal, FType]"

fun tag :: "result_field \<Rightarrow> string" where
  "tag FItems = ''items''"
| "tag FErrorID = ''error_id''"
| "tag FErrorName = ''error_name''"
| "tag FErrorMessage = ''error_message''"
| "tag FPage = ''page''"
| "tag FPageSize = ''page_size''"
| "tag FHasMore = ''has_more''"
| "tag FBackoff = ''backoff''"
| "tag FQuotaMax = ''quota_max''"
| "tag FQuotaRemaining = ''quota_remaining''"
| "tag FTotal = ''total''"
| "tag FType = ''type''"

function foldName :: "string \<Rightarrow> string" where
  "foldName s =
     (case s of
        [] \<Rightarrow> []
      | c # t \<Rightarrow>
          if inRange (CHR ''a'') (CHR ''z'') c then char_of (of_char c - (32 :: nat)) # foldName t
          else if take 2 s = [CHR 0xC5, CHR 0xBF] then CHR ''S'' # foldName (drop 2 s)
          else if take 3 s = [CHR 0xE2, CHR 0x84, CHR 0xAA] then CHR ''K'' # foldName (drop 3 s)
          else c # foldName t)"
  by pat_completeness auto
termination
  by (relation "measure length") auto

declare foldName.simps [simp del]

definition findField :: "string \<Rightarrow> result_field option" where
  "findField key =
     (case List.find (\<lambda>f. tag f = key) fields of
        Some f \<Rightarrow> Some f
      | None \<Rightarrow> List.find (\<lambda>f. foldName (tag f) = foldName key) fields)"

text \<open>
  What the text of a value stores in a field of a type: \<^verbatim>\<open>null\<close> leaves the field as it
  is, a value of the field's type is stored, and any other value is a type mismatch.
\<close>

datatype 'a stored = Null | Stored 'a | Mismatch

definition intField :: "string \<Rightarrow> go_int stored" where
  "intField raw =
     (case raw of
        [] \<Rightarrow> Mismatch
      | c # t \<Rightarrow>
          if c = CHR ''n'' then Null
          else if c = CHR ''-'' \<or> isDigit c
          then (case ParseInt raw of None \<Rightarrow> Mismatch | Some i \<Rightarrow> Stored (word_of_int i))
          else Mismatch)"

definition stringField :: "string \<Rightarrow> string stored" where
  "stringField raw =
     (case raw of
        [] \<Rightarrow> Mismatch
      | c # t \<Rightarrow>
          if c = CHR ''n'' then Null
          else if c = CHR 0x22 then Stored (unquote (butlast t))
          else Mismatch)"

definition boolField :: "string \<Rightarrow> bool stored" where
  "boolField raw =
     (case raw of
        [] \<Rightarrow> Mismatch
      | c # t \<Rightarrow>
          if c = CHR ''n'' then Null
          else if c = CHR ''t'' then Stored True
          else if c = CHR ''f'' then Stored False
          else Mismatch)"

text \<open>
  The state of a decoding is the struct and the first type mismatch, if there was one: a
  mismatch is kept and the decoding goes on.
\<close>

definition saveError :: "json_error option \<Rightarrow> json_error option" where
  "saveError saved = (case saved of None \<Rightarrow> Some UnmarshalTypeError | Some e \<Rightarrow> Some e)"

definition assign ::
  "('a \<Rightarrow> 'v result \<Rightarrow> 'v result) \<Rightarrow> 'a stored \<Rightarrow> 'v result \<times> json_error option
     \<Rightarrow> 'v result \<times> json_error option" where
  "assign update x st =
     (case x of
        Null \<Rightarrow> st
      | Stored a \<Rightarrow> (update a (fst st), snd st)
      | Mismatch \<Rightarrow> (fst st, saveError (snd st)))"

text \<open>
  One member whose key names the field \<open>f\<close>. The field \<^verbatim>\<open>Items\<close> has the method
  \<^verbatim>\<open>UnmarshalJSON\<close>, which gets the text of the value whatever it is; its error ends the
  decoding (\<^term>\<open>Inl\<close>).
\<close>

definition storeField ::
  "('v \<Rightarrow> string \<Rightarrow> 'v \<times> json_error option) \<Rightarrow> result_field \<Rightarrow> string
     \<Rightarrow> 'v result \<times> json_error option
     \<Rightarrow> ('v result \<times> json_error) + ('v result \<times> json_error option)" where
  "storeField unmarshalItems f raw st =
     (case f of
        FItems \<Rightarrow>
          (case unmarshalItems (Items (fst st)) raw of
             (v', None) \<Rightarrow> Inr ((fst st)\<lparr>Items := v'\<rparr>, snd st)
           | (v', Some e) \<Rightarrow> Inl ((fst st)\<lparr>Items := v'\<rparr>, e))
      | FErrorID \<Rightarrow> Inr (assign (\<lambda>a res. res\<lparr>ErrorID := a\<rparr>) (intField raw) st)
      | FErrorName \<Rightarrow> Inr (assign (\<lambda>a res. res\<lparr>ErrorName := a\<rparr>) (stringField raw) st)
      | FErrorMessage \<Rightarrow> Inr (assign (\<lambda>a res. res\<lparr>ErrorMessage := a\<rparr>) (stringField raw) st)
      | FPage \<Rightarrow> Inr (assign (\<lambda>a res. res\<lparr>result.Page := a\<rparr>) (intField raw) st)
      | FPageSize \<Rightarrow> Inr (assign (\<lambda>a res. res\<lparr>result.PageSize := a\<rparr>) (intField raw) st)
      | FHasMore \<Rightarrow> Inr (assign (\<lambda>a res. res\<lparr>result.HasMore := a\<rparr>) (boolField raw) st)
      | FBackoff \<Rightarrow> Inr (assign (\<lambda>a res. res\<lparr>result.Backoff := a\<rparr>) (intField raw) st)
      | FQuotaMax \<Rightarrow> Inr (assign (\<lambda>a res. res\<lparr>result.QuotaMax := a\<rparr>) (intField raw) st)
      | FQuotaRemaining \<Rightarrow>
          Inr (assign (\<lambda>a res. res\<lparr>result.QuotaRemaining := a\<rparr>) (intField raw) st)
      | FTotal \<Rightarrow> Inr (assign (\<lambda>a res. res\<lparr>result.Total := a\<rparr>) (intField raw) st)
      | FType \<Rightarrow> Inr (assign (\<lambda>a res. res\<lparr>result.Type := a\<rparr>) (stringField raw) st))"

text \<open>The members of an object in their order; a key that names no field is passed over.\<close>

fun storeMembers ::
  "('v \<Rightarrow> string \<Rightarrow> 'v \<times> json_error option) \<Rightarrow> (string \<times> string) list
     \<Rightarrow> 'v result \<times> json_error option
     \<Rightarrow> ('v result \<times> json_error) + ('v result \<times> json_error option)" where
  "storeMembers unmarshalItems [] st = Inr st"
| "storeMembers unmarshalItems ((key, raw) # ms) st =
     (case findField (unquote key) of
        None \<Rightarrow> storeMembers unmarshalItems ms st
      | Some f \<Rightarrow>
          (case storeField unmarshalItems f raw st of
             Inl failed \<Rightarrow> Inl failed
           | Inr st' \<Rightarrow> storeMembers unmarshalItems ms st'))"

text \<open>
  A value into the struct: an object by its members, \<^verbatim>\<open>null\<close> without effect, any other
  value is a type mismatch.
\<close>

definition unmarshalValue ::
  "string \<Rightarrow> ('v \<Rightarrow> string \<Rightarrow> 'v \<times> json_error option) \<Rightarrow> 'v result
     \<Rightarrow> 'v result \<times> json_error option" where
  "unmarshalValue raw unmarshalItems res =
     (case raw of
        [] \<Rightarrow> (res, Some InputError)
      | c # t \<Rightarrow>
          if c = CHR ''{'' then
            (case objectMembers raw of
               None \<Rightarrow> (res, Some InputError)
             | Some ms \<Rightarrow>
                 (case storeMembers unmarshalItems ms (res, None) of
                    Inl (res', e) \<Rightarrow> (res', Some e)
                  | Inr (res', saved) \<Rightarrow> (res', saved)))
          else if c = CHR ''n'' then (res, None)
          else (res, Some UnmarshalTypeError))"

definition Decoder_Decode ::
  "string \<Rightarrow> ('v \<Rightarrow> string \<Rightarrow> 'v \<times> json_error option) \<Rightarrow> 'v result
     \<Rightarrow> 'v result \<times> json_error option" where
  "Decoder_Decode r unmarshalItems res =
     (case readValue r of
        None \<Rightarrow> (res, Some InputError)
      | Some raw \<Rightarrow> unmarshalValue raw unmarshalItems res)"

section \<open>What the specification says, as definitions\<close>

text \<open>
  The definitions of this section follow the words of the specification, not the code;
  the theorems compare the code with them.
\<close>

subsection \<open>Placeholders of a template\<close>

text \<open>
  A template read from left to right: the text before the first \<^verbatim>\<open>{\<close>, then the span from
  that \<^verbatim>\<open>{\<close> to the next \<^verbatim>\<open>}\<close>, and so on. \<open>spec_parts s\<close> is the list of the complete
  spans of \<open>s\<close>, each with the literal text before it, and the tail of \<open>s\<close> behind the
  last complete span.
\<close>

function spec_parts :: "string \<Rightarrow> (string \<times> string) list \<times> string" where
  "spec_parts s =
     (let lit = takeWhile (\<lambda>c. c \<noteq> CHR ''{'') s;
          r = dropWhile (\<lambda>c. c \<noteq> CHR ''{'') s
      in if r = [] then ([], s)
         else
           (let body = takeWhile (\<lambda>c. c \<noteq> CHR ''}'') (tl r);
                r2 = dropWhile (\<lambda>c. c \<noteq> CHR ''}'') (tl r)
            in if r2 = [] then ([], s)
               else (case spec_parts (tl r2) of
                       (segs, rest) \<Rightarrow> ((lit, CHR ''{'' # body @ ''}'') # segs, rest))))"
  by pat_completeness auto
termination
proof (relation "measure length")
  show "wf (measure length)" by simp
next
  fix s lit r body r2 :: string
  assume r: "r = dropWhile (\<lambda>c. c \<noteq> CHR ''{'') s" and "r \<noteq> []"
    and r2: "r2 = dropWhile (\<lambda>c. c \<noteq> CHR ''}'') (tl r)" and ne: "r2 \<noteq> []"
  have "length (tl r2) < length r2" using ne by (cases r2) auto
  also have "\<dots> \<le> length (tl r)" unfolding r2 by (rule length_dropWhile_le)
  also have "\<dots> \<le> length r" by simp
  also have "\<dots> \<le> length s" unfolding r by (rule length_dropWhile_le)
  finally show "(tl r2, s) \<in> measure length" by simp
qed

declare spec_parts.simps [simp del]

text \<open>The parts of a template written out again, spans included.\<close>

definition spec_verbatim :: "(string \<times> string) list \<Rightarrow> string" where
  "spec_verbatim segs = concat (map (\<lambda>(lit, span). lit @ span) segs)"

text \<open>The parts with each span replaced by the argument at the same position.\<close>

definition spec_substituted :: "(string \<times> string) list \<Rightarrow> string list \<Rightarrow> string" where
  "spec_substituted segs args = concat (map (\<lambda>((lit, span), a). lit @ a) (zip segs args))"

text \<open>Both at once: spans are replaced while arguments last, and copied afterwards.\<close>

fun render :: "(string \<times> string) list \<Rightarrow> string list \<Rightarrow> string" where
  "render [] args = []"
| "render ((lit, span) # segs) [] = lit @ span @ render segs []"
| "render ((lit, span) # segs) (a # args) = lit @ a @ render segs args"

subsection \<open>Texts with separators, and decimal numerals\<close>

fun spec_separated :: "string \<Rightarrow> string list \<Rightarrow> string" where
  "spec_separated sep [] = []"
| "spec_separated sep [x] = x"
| "spec_separated sep (x # y # ys) = x @ sep @ spec_separated sep (y # ys)"

text \<open>The number a decimal numeral denotes, with an optional minus sign in front.\<close>

definition digit_value :: "char \<Rightarrow> int" where
  "digit_value c = int (of_char c) - 48"

definition unsigned_value :: "string \<Rightarrow> int" where
  "unsigned_value s = foldl (\<lambda>acc c. 10 * acc + digit_value c) 0 s"

definition spec_decimal_value :: "string \<Rightarrow> int" where
  "spec_decimal_value s =
     (case s of
        [] \<Rightarrow> 0
      | c # cs \<Rightarrow> if c = CHR ''-'' then - unsigned_value cs else unsigned_value s)"

subsection \<open>The query of a request\<close>

text \<open>A pair that is present or absent.\<close>

definition emit :: "bool \<Rightarrow> string \<Rightarrow> string \<Rightarrow> (string \<times> string) list" where
  "emit present key val = (if present then [(key, val)] else [])"

definition has_token :: "'h Client option \<Rightarrow> bool" where
  "has_token c = (case c of None \<Rightarrow> False | Some c' \<Rightarrow> AccessToken c' \<noteq> '''')"

definition has_key :: "'h Client option \<Rightarrow> bool" where
  "has_key c = (case c of None \<Rightarrow> False | Some c' \<Rightarrow> Key c' \<noteq> '''')"

definition token_of :: "'h Client option \<Rightarrow> string" where
  "token_of c = (case c of None \<Rightarrow> '''' | Some c' \<Rightarrow> AccessToken c')"

definition key_of :: "'h Client option \<Rightarrow> string" where
  "key_of c = (case c of None \<Rightarrow> '''' | Some c' \<Rightarrow> Key c')"

text \<open>
  The recognized parameters in the lexicographic order of their keys: the credentials
  when the identity carries them, \<^verbatim>\<open>site\<close> always, every other one when its field is
  not the zero value.
\<close>

definition spec_query :: "'h Client option \<Rightarrow> Params \<Rightarrow> (string \<times> string) list" where
  "spec_query c p =
     emit (has_token c) ''access_token'' (token_of c)
     @ emit (Filter p \<noteq> '''') ''filter'' (Filter p)
     @ emit (has_key c) ''key'' (key_of c)
     @ emit (Order p \<noteq> '''') ''order'' (Order p)
     @ emit (Params.Page p \<noteq> 0) ''page'' (Itoa (Params.Page p))
     @ emit (Params.PageSize p \<noteq> 0) ''pagesize'' (Itoa (Params.PageSize p))
     @ [(''site'', Site p)]
     @ emit (Sort p \<noteq> '''') ''sort'' (Sort p)
     @ emit (Tagged p \<noteq> '''') ''tagged'' (Tagged p)"

text \<open>One pair of the query string, both sides escaped.\<close>

definition spec_pair :: "string \<times> string \<Rightarrow> string" where
  "spec_pair kv = QueryEscape (fst kv) @ ''='' @ QueryEscape (snd kv)"

text \<open>The root of a request: the identity's, or the fixed constant when it gives none.\<close>

definition spec_root :: "'h Client option \<Rightarrow> string" where
  "spec_root c =
     (case c of
        None \<Rightarrow> ''https://api.stackexchange.com/2.1''
      | Some c' \<Rightarrow> if Root' c' = '''' then ''https://api.stackexchange.com/2.1'' else Root' c')"

subsection \<open>Auxiliary definitions of the proofs\<close>

text \<open>A list of pairs as a \<^verbatim>\<open>url.Values\<close> with one value for each key.\<close>

definition as_values :: "(string \<times> string) list \<Rightarrow> Values" where
  "as_values ps = map (\<lambda>(k, x). (k, [x])) ps"

text \<open>The pairs of \<^verbatim>\<open>values()\<close> and of a request in the order in which the code sets them.\<close>

definition params_pairs :: "Params \<Rightarrow> (string \<times> string) list" where
  "params_pairs p =
     [(''site'', Site p)]
     @ emit (Sort p \<noteq> '''') ''sort'' (Sort p)
     @ emit (Order p \<noteq> '''') ''order'' (Order p)
     @ emit (Params.Page p \<noteq> 0) ''page'' (Itoa (Params.Page p))
     @ emit (Params.PageSize p \<noteq> 0) ''pagesize'' (Itoa (Params.PageSize p))
     @ emit (Filter p \<noteq> '''') ''filter'' (Filter p)
     @ emit (Tagged p \<noteq> '''') ''tagged'' (Tagged p)"

definition request_pairs :: "'h Client option \<Rightarrow> Params \<Rightarrow> (string \<times> string) list" where
  "request_pairs c p =
     (params_pairs p @ emit (has_token c) ''access_token'' (token_of c))
       @ emit (has_key c) ''key'' (key_of c)"

text \<open>
  A decoder for the examples: it knows one document, an envelope that reports an error,
  and rejects every other input.
\<close>

definition example_envelope :: string where
  "example_envelope =
     ''{\"error_id\":400,\"error_name\":\"bad_parameter\",\"error_message\":\"x\"}''"

definition example_Decode ::
  "string \<Rightarrow> (unit \<Rightarrow> string \<Rightarrow> unit \<times> string option) \<Rightarrow> unit result
     \<Rightarrow> unit result \<times> string option" where
  "example_Decode r unmarshalItems res =
     (if r = example_envelope
      then (res\<lparr>ErrorID := 400, ErrorName := ''bad_parameter'', ErrorMessage := ''x''\<rparr>, None)
      else (res, Some ''unexpected end of JSON input''))"

definition example_Unmarshal :: "string \<Rightarrow> unit \<Rightarrow> unit \<times> string option" where
  "example_Unmarshal data val = (val, None)"

definition example_params :: Params where
  "example_params =
     \<lparr>Site = ''stack overflow'', Sort = ''votes'', Order = '''', Page = 2, PageSize = 0,
      Filter = ''!a&b'', Tagged = '''', Args = [''1;2;3'']\<rparr>"

definition example_client :: "nat Client" where
  "example_client = \<lparr>Client = Some 5, Root' = ''http://x'', AccessToken = ''tok'', Key = ''k=1''\<rparr>"

definition quiet :: globals where
  "quiet = \<lparr>Verbose = False, stdout = []\<rparr>"

definition loud :: globals where
  "loud = \<lparr>Verbose = True, stdout = []\<rparr>"

subsection \<open>Envelopes\<close>

text \<open>
  The types of the fields of the envelope, and the texts that are values of a type: an
  integer is a decimal numeral of 64 bits, a text is a string literal, and \<^verbatim>\<open>null\<close> stands
  for an absent value of any type. The items are of the type of the caller's destination.
\<close>

datatype kind = Integer | Text | Boolean | Unmarshaler

fun spec_kind :: "result_field \<Rightarrow> kind" where
  "spec_kind FItems = Unmarshaler"
| "spec_kind FErrorID = Integer"
| "spec_kind FErrorName = Text"
| "spec_kind FErrorMessage = Text"
| "spec_kind FPage = Integer"
| "spec_kind FPageSize = Integer"
| "spec_kind FHasMore = Boolean"
| "spec_kind FBackoff = Integer"
| "spec_kind FQuotaMax = Integer"
| "spec_kind FQuotaRemaining = Integer"
| "spec_kind FTotal = Integer"
| "spec_kind FType = Text"

definition spec_integer :: "string \<Rightarrow> int option" where
  "spec_integer x =
     (let ds = (if take 1 x = ''-'' then drop 1 x else x)
      in if ds \<noteq> [] \<and> list_all isDigit ds
         then Some (if take 1 x = ''-'' then - unsigned_value ds else unsigned_value ds)
         else None)"

definition spec_string :: "string \<Rightarrow> string option" where
  "spec_string x =
     (case x of
        [] \<Rightarrow> None
      | c # t \<Rightarrow>
          if c = CHR 0x22 \<and> t \<noteq> [] \<and> last t = CHR 0x22 then Some (unquote (butlast t))
          else None)"

text \<open>A character that stands for itself in a string literal, in ASCII.\<close>

definition spec_plain :: "char \<Rightarrow> bool" where
  "spec_plain c = (c \<noteq> CHR 0x5C \<and> c \<noteq> CHR 0x22 \<and> 0x20 \<le> (of_char c :: nat) \<and> (of_char c :: nat) < 0x80)"

definition spec_accepts :: "kind \<Rightarrow> string \<Rightarrow> bool" where
  "spec_accepts k x =
     (case k of
        Unmarshaler \<Rightarrow> True
      | Integer \<Rightarrow>
          x = ''null''
          \<or> (case spec_integer x of None \<Rightarrow> False | Some i \<Rightarrow> - (2 ^ 63) \<le> i \<and> i < 2 ^ 63)
      | Text \<Rightarrow> x = ''null'' \<or> spec_string x \<noteq> None
      | Boolean \<Rightarrow> x = ''null'' \<or> x = ''true'' \<or> x = ''false'')"

text \<open>
  A member is well typed when its key names no field or its value is of the field's type.
  The destination accepts the items when \<^verbatim>\<open>json.Unmarshal\<close> returns no error for the
  value of each member that names the field \<^verbatim>\<open>items\<close>, one after the other.
\<close>

definition spec_member_typed :: "string \<times> string \<Rightarrow> bool" where
  "spec_member_typed m =
     (case findField (unquote (fst m)) of
        None \<Rightarrow> True
      | Some f \<Rightarrow> spec_accepts (spec_kind f) (snd m))"

fun spec_items_accepted ::
  "(string \<Rightarrow> 'v \<Rightarrow> 'v \<times> json_error option) \<Rightarrow> 'v \<Rightarrow> (string \<times> string) list \<Rightarrow> bool" where
  "spec_items_accepted json_Unmarshal v [] = True"
| "spec_items_accepted json_Unmarshal v ((key, x) # ms) =
     (if findField (unquote key) = Some FItems
      then (case json_Unmarshal x v of
              (v', None) \<Rightarrow> spec_items_accepted json_Unmarshal v' ms
            | (v', Some e) \<Rightarrow> False)
      else spec_items_accepted json_Unmarshal v ms)"

text \<open>The value that an object gives a field: that of the last member that names it.\<close>

fun spec_member :: "result_field \<Rightarrow> (string \<times> string) list \<Rightarrow> string option" where
  "spec_member f [] = None"
| "spec_member f ((key, x) # ms) =
     (case spec_member f ms of
        Some y \<Rightarrow> Some y
      | None \<Rightarrow> if findField (unquote key) = Some f then Some x else None)"

text \<open>
  A destination for the examples: a \<^verbatim>\<open>json.RawMessage\<close>, which keeps the text of the
  value it is given.
\<close>

definition example_RawMessage :: "string \<Rightarrow> string \<Rightarrow> string \<times> json_error option" where
  "example_RawMessage data val = (data, None)"

definition example_items_envelope :: string where
  "example_items_envelope =
     '' {\"items\":[{\"id\":1}], \"Error_ID\":502, \"error_name\":\"throttle_violation\", \"error_message\":\"too many requests\", \"error_id\":null, \"error_id\":-7, \"extra\":[\"error_name\"]} {''"

text \<open>The HTTP client and the URL of a request, as the proofs name them.\<close>

definition chosen_client :: "'h \<Rightarrow> 'h Client option \<Rightarrow> 'h" where
  "chosen_client http_DefaultClient c =
     (case c of
        None \<Rightarrow> http_DefaultClient
      | Some c' \<Rightarrow> (case Client c' of None \<Rightarrow> http_DefaultClient | Some h \<Rightarrow> h))"

definition built_url ::
  "(string list \<Rightarrow> string list) \<Rightarrow> 'h Client option \<Rightarrow> string \<Rightarrow> Params \<Rightarrow> string" where
  "built_url range_order c path p =
     spec_root c @ fillPlaceholders path (Args p) @ ''?''
       @ Values_Encode range_order (as_values (request_pairs c p))"

definition printed :: "string \<Rightarrow> globals \<Rightarrow> globals" where
  "printed req g = (if Verbose g then g\<lparr>stdout := stdout g @ [req]\<rparr> else g)"

section \<open>Lemmas\<close>

subsection \<open>Searching a byte\<close>

lemma takeWhile_upto: "c \<notin> set l \<Longrightarrow> takeWhile (\<lambda>x. x \<noteq> c) (l @ c # r) = l"
  by (induction l) auto

lemma dropWhile_upto: "c \<notin> set l \<Longrightarrow> dropWhile (\<lambda>x. x \<noteq> c) (l @ c # r) = c # r"
  by (induction l) auto

lemma dropWhile_absent: "c \<notin> set l \<Longrightarrow> dropWhile (\<lambda>x. x \<noteq> c) l = []"
  by (induction l) auto

lemma IndexByte_None: "IndexByte b c = None \<longleftrightarrow> c \<notin> set b"
  by (induction b) auto

lemma IndexByte_first: "c \<notin> set l \<Longrightarrow> IndexByte (l @ c # r) c = Some (length l)"
  by (induction l) auto

lemma IndexByte_Some:
  "IndexByte b c = Some i \<Longrightarrow> \<exists>l r. b = l @ c # r \<and> c \<notin> set l \<and> i = length l"
proof (induction b arbitrary: i)
  case Nil
  then show ?case by simp
next
  case (Cons x xs)
  show ?case
  proof (cases "x = c")
    case True
    with Cons.prems show ?thesis by auto
  next
    case False
    with Cons.prems obtain j where j: "IndexByte xs c = Some j" and i: "i = Suc j"
      by auto
    from Cons.IH [OF j] obtain l r where "xs = l @ c # r" "c \<notin> set l" "j = length l"
      by blast
    with False i have "x # xs = (x # l) @ c # r \<and> c \<notin> set (x # l) \<and> i = length (x # l)"
      by simp
    then show ?thesis by blast
  qed
qed

subsection \<open>The parts of a template\<close>

lemma parts_no_open: "CHR ''{'' \<notin> set s \<Longrightarrow> spec_parts s = ([], s)"
  by (subst spec_parts.simps) (simp add: dropWhile_absent)

lemma parts_empty: "spec_parts [] = ([], [])"
  by (simp add: parts_no_open)

lemma parts_unmatched:
  assumes "CHR ''{'' \<notin> set l" "CHR ''}'' \<notin> set r"
  shows "spec_parts (l @ CHR ''{'' # r) = ([], l @ CHR ''{'' # r)"
proof -
  have d: "dropWhile (\<lambda>c. c \<noteq> CHR ''{'') (l @ CHR ''{'' # r) = CHR ''{'' # r"
    using assms(1) by (rule dropWhile_upto)
  have e: "dropWhile (\<lambda>c. c \<noteq> CHR ''}'') r = []"
    using assms(2) by (rule dropWhile_absent)
  show ?thesis
    by (subst spec_parts.simps) (simp add: d e)
qed

lemma parts_span:
  assumes "CHR ''{'' \<notin> set l" "CHR ''}'' \<notin> set body"
  shows "spec_parts (l @ CHR ''{'' # body @ CHR ''}'' # t) =
           (case spec_parts t of
              (segs, rest) \<Rightarrow> ((l, CHR ''{'' # body @ ''}'') # segs, rest))"
proof -
  have d: "dropWhile (\<lambda>c. c \<noteq> CHR ''{'') (l @ CHR ''{'' # body @ CHR ''}'' # t) =
             CHR ''{'' # body @ CHR ''}'' # t"
    and tk: "takeWhile (\<lambda>c. c \<noteq> CHR ''{'') (l @ CHR ''{'' # body @ CHR ''}'' # t) = l"
    using assms(1) by (simp_all add: dropWhile_upto takeWhile_upto)
  have e: "dropWhile (\<lambda>c. c \<noteq> CHR ''}'') (body @ CHR ''}'' # t) = CHR ''}'' # t"
    and te: "takeWhile (\<lambda>c. c \<noteq> CHR ''}'') (body @ CHR ''}'' # t) = body"
    using assms(2) by (simp_all add: dropWhile_upto takeWhile_upto)
  show ?thesis
    by (subst spec_parts.simps) (simp add: d tk e te)
qed

text \<open>
  Every template is of one of three shapes: without \<^verbatim>\<open>{\<close>, with a first \<^verbatim>\<open>{\<close> that no
  \<^verbatim>\<open>}\<close> follows, or with a first complete span.
\<close>

lemma template_shapes:
  obtains (plain) "CHR ''{'' \<notin> set s"
  | (unmatched) l r where "s = l @ CHR ''{'' # r" "CHR ''{'' \<notin> set l" "CHR ''}'' \<notin> set r"
  | (span) l body t where "s = l @ CHR ''{'' # body @ CHR ''}'' # t"
      "CHR ''{'' \<notin> set l" "CHR ''}'' \<notin> set body"
proof (cases "CHR ''{'' \<in> set s")
  case False
  then show ?thesis by (rule plain)
next
  case True
  then obtain l r where s: "s = l @ CHR ''{'' # r" and l: "CHR ''{'' \<notin> set l"
    by (meson split_list_first)
  show ?thesis
  proof (cases "CHR ''}'' \<in> set r")
    case False
    with s l show ?thesis by (rule unmatched)
  next
    case True
    then obtain body t where "r = body @ CHR ''}'' # t" and "CHR ''}'' \<notin> set body"
      by (meson split_list_first)
    with s l show ?thesis by (intro span [of l body t]) simp_all
  qed
qed

lemma render_no_args: "render (fst (spec_parts s)) [] @ snd (spec_parts s) = s"
proof (induction "length s" arbitrary: s rule: less_induct)
  case less
  show ?case
  proof (cases s rule: template_shapes)
    case plain
    then show ?thesis by (simp add: parts_no_open)
  next
    case (unmatched l r)
    then show ?thesis by (simp add: parts_unmatched)
  next
    case (span l body t)
    have "length t < length s" by (simp add: span(1))
    from less.hyps [OF this] show ?thesis
      by (simp add: span(1) parts_span [OF span(2,3)] case_prod_beta)
  qed
qed

lemma zip_take_right: "zip xs (take (length xs) ys) = zip xs ys"
  by (induction xs ys rule: list_induct2') simp_all

lemma zip_take_left: "zip (take (length ys) xs) ys = zip xs ys"
  by (induction xs ys rule: list_induct2') simp_all

lemma render_split:
  "render segs args = spec_substituted segs args @ spec_verbatim (drop (length args) segs)"
  by (induction segs args rule: render.induct)
    (simp_all add: spec_substituted_def spec_verbatim_def)

lemma parts_wf:
  "(lit, span) \<in> set (fst (spec_parts s)) \<Longrightarrow>
     CHR ''{'' \<notin> set lit \<and> (\<exists>body. span = CHR ''{'' # body @ ''}'' \<and> CHR ''}'' \<notin> set body)"
proof (induction "length s" arbitrary: s rule: less_induct)
  case less
  show ?case
  proof (cases s rule: template_shapes)
    case plain
    with less.prems show ?thesis by (simp add: parts_no_open)
  next
    case (unmatched l r)
    with less.prems show ?thesis by (simp add: parts_unmatched)
  next
    case (span l body t)
    from less.prems
    have "(lit, span) = (l, CHR ''{'' # body @ ''}'') \<or> (lit, span) \<in> set (fst (spec_parts t))"
      by (simp add: span(1) parts_span [OF span(2,3)] case_prod_beta)
    then show ?thesis
    proof
      assume "(lit, span) = (l, CHR ''{'' # body @ ''}'')"
      with span(2,3) show ?thesis by simp
    next
      assume "(lit, span) \<in> set (fst (spec_parts t))"
      moreover have "length t < length s" by (simp add: span(1))
      ultimately show ?thesis by (rule less.hyps [rotated])
    qed
  qed
qed

lemma span_after_open:
  "(\<exists>u v w. s = u @ CHR ''{'' # v @ CHR ''}'' # w) \<longleftrightarrow>
     CHR ''}'' \<in> set (dropWhile (\<lambda>c. c \<noteq> CHR ''{'') s)"
proof (induction s)
  case Nil
  then show ?case by simp
next
  case (Cons x xs)
  show ?case
  proof (cases "x = CHR ''{''")
    case True
    have "(\<exists>u v w. x # xs = u @ CHR ''{'' # v @ CHR ''}'' # w) \<longleftrightarrow> CHR ''}'' \<in> set xs"
    proof
      assume "\<exists>u v w. x # xs = u @ CHR ''{'' # v @ CHR ''}'' # w"
      then obtain u v w where e: "x # xs = u @ CHR ''{'' # v @ CHR ''}'' # w" by blast
      then show "CHR ''}'' \<in> set xs" by (cases u) auto
    next
      assume "CHR ''}'' \<in> set xs"
      then obtain v w where "xs = v @ CHR ''}'' # w" by (meson split_list)
      with True have "x # xs = [] @ CHR ''{'' # v @ CHR ''}'' # w" by simp
      then show "\<exists>u v w. x # xs = u @ CHR ''{'' # v @ CHR ''}'' # w" by blast
    qed
    with True show ?thesis by simp
  next
    case False
    have "(\<exists>u v w. x # xs = u @ CHR ''{'' # v @ CHR ''}'' # w) \<longleftrightarrow>
          (\<exists>u v w. xs = u @ CHR ''{'' # v @ CHR ''}'' # w)"
    proof
      assume "\<exists>u v w. x # xs = u @ CHR ''{'' # v @ CHR ''}'' # w"
      then obtain u v w where e: "x # xs = u @ CHR ''{'' # v @ CHR ''}'' # w" by blast
      with False obtain u' where "u = x # u'" by (cases u) auto
      with e have "xs = u' @ CHR ''{'' # v @ CHR ''}'' # w" by simp
      then show "\<exists>u v w. xs = u @ CHR ''{'' # v @ CHR ''}'' # w" by blast
    next
      assume "\<exists>u v w. xs = u @ CHR ''{'' # v @ CHR ''}'' # w"
      then obtain u v w where "xs = u @ CHR ''{'' # v @ CHR ''}'' # w" by blast
      then have "x # xs = (x # u) @ CHR ''{'' # v @ CHR ''}'' # w" by simp
      then show "\<exists>u v w. x # xs = u @ CHR ''{'' # v @ CHR ''}'' # w" by blast
    qed
    with False Cons.IH show ?thesis by simp
  qed
qed

lemma parts_rest:
  "CHR ''}'' \<notin> set (dropWhile (\<lambda>c. c \<noteq> CHR ''{'') (snd (spec_parts s)))"
proof (induction "length s" arbitrary: s rule: less_induct)
  case less
  show ?case
  proof (cases s rule: template_shapes)
    case plain
    then show ?thesis by (simp add: parts_no_open dropWhile_absent)
  next
    case (unmatched l r)
    then show ?thesis by (simp add: parts_unmatched dropWhile_upto)
  next
    case (span l body t)
    have "length t < length s" by (simp add: span(1))
    from less.hyps [OF this] show ?thesis
      by (simp add: span(1) parts_span [OF span(2,3)] case_prod_beta)
  qed
qed

lemma parts_append_unmatched:
  "CHR ''}'' \<notin> set suf \<Longrightarrow>
     spec_parts (pre @ CHR ''{'' # suf) =
       (fst (spec_parts pre), snd (spec_parts pre) @ CHR ''{'' # suf)"
proof (induction "length pre" arbitrary: pre rule: less_induct)
  case less
  show ?case
  proof (cases pre rule: template_shapes)
    case plain
    with less.prems show ?thesis by (simp add: parts_no_open parts_unmatched)
  next
    case (unmatched l r)
    with less.prems have "CHR ''}'' \<notin> set (r @ CHR ''{'' # suf)" by simp
    from parts_unmatched [OF unmatched(2) this] parts_unmatched [OF unmatched(2,3)]
    show ?thesis by (simp add: unmatched(1))
  next
    case (span l body t)
    have "length t < length pre" by (simp add: span(1))
    from less.hyps [OF this less.prems] parts_span [OF span(2,3), of "t @ CHR ''{'' # suf"]
      parts_span [OF span(2,3), of t]
    show ?thesis
      by (simp add: span(1) case_prod_beta)
  qed
qed

subsection \<open>The loop of \<^verbatim>\<open>fillPlaceholders\<close>\<close>

lemma fillLoop_stop:
  "\<not> (argIdx < length args \<and> length b > 0) \<Longrightarrow> fillLoop args argIdx buf b = (buf, b, argIdx)"
  by (subst fillLoop.simps) auto

lemma fillLoop_render:
  "fillLoop args k buf b = (buf', b', k') \<Longrightarrow>
     buf' @ b' = buf @ render (fst (spec_parts b)) (drop k args) @ snd (spec_parts b)
     \<and> k' = (if k \<le> length args then min (length args) (k + length (fst (spec_parts b))) else k)"
proof (induction args k buf b rule: fillLoop.induct)
  case (1 args argIdx buf b)
  show ?case
  proof (cases "argIdx < length args \<and> length b > 0")
    case False
    have eq: "buf' = buf" "b' = b" "k' = argIdx"
      using fillLoop_stop [OF False, of buf] "1.prems" by simp_all
    show ?thesis
    proof (cases "argIdx < length args")
      case True
      with False have "b = []" by simp
      with eq True show ?thesis by (simp add: parts_no_open)
    next
      case False
      then have "drop argIdx args = []" by simp
      with eq False show ?thesis by (auto simp add: render_no_args)
    qed
  next
    case True
    note guard = True
    show ?thesis
    proof (cases "IndexByte b CHR ''{''")
      case None
      with guard "1.prems" have eq: "buf' = buf" "b' = b" "k' = argIdx"
        by (simp_all add: fillLoop.simps [of args argIdx buf b])
      from None have "CHR ''{'' \<notin> set b" by (simp add: IndexByte_None)
      with eq guard show ?thesis by (simp add: parts_no_open)
    next
      case (Some i)
      note Somei = Some
      from IndexByte_Some [OF Some] obtain l r
        where b: "b = l @ CHR ''{'' # r" and l: "CHR ''{'' \<notin> set l" and i: "i = length l"
        by blast
      have tk: "take i b = l" and dr: "drop i b = CHR ''{'' # r"
        by (simp_all add: b i)
      show ?thesis
      proof (cases "IndexByte (drop i b) CHR ''}''")
        case None
        with guard Somei "1.prems"
        have eq: "buf' = buf @ l" "b' = CHR ''{'' # r" "k' = argIdx"
          by (simp_all add: fillLoop.simps [of args argIdx buf b] tk dr)
        from None have "CHR ''}'' \<notin> set r" by (simp add: IndexByte_None dr)
        with eq guard l show ?thesis by (simp add: b parts_unmatched)
      next
        case (Some j)
        note Somej = Some
        from IndexByte_Some [OF Some] obtain u t
          where ut: "drop i b = u @ CHR ''}'' # t" and u: "CHR ''}'' \<notin> set u"
            and j: "j = length u"
          by blast
        from ut dr u obtain body where ub: "u = CHR ''{'' # body"
          by (cases u) auto
        with ut dr have r: "r = body @ CHR ''}'' # t" by simp
        from u ub have body: "CHR ''}'' \<notin> set body" by simp
        have dj: "drop (Suc j) (drop i b) = t" by (simp add: ut j)
        from guard Somei Somej "1.prems"
        have rec: "fillLoop args (argIdx + 1) (buf @ l @ args ! argIdx) t = (buf', b', k')"
          by (simp add: fillLoop.simps [of args argIdx buf b] tk dj del: drop_drop)
        have IH: "buf' @ b' =
              (buf @ l @ args ! argIdx)
                @ render (fst (spec_parts t)) (drop (argIdx + 1) args) @ snd (spec_parts t)
           \<and> k' = (if argIdx + 1 \<le> length args
                   then min (length args) (argIdx + 1 + length (fst (spec_parts t)))
                   else argIdx + 1)"
          using "1.IH" [OF guard Somei refl refl Somej] rec
          by (simp add: tk dj del: drop_drop)
        have dk: "drop argIdx args = args ! argIdx # drop (argIdx + 1) args"
          using guard by (simp add: Cons_nth_drop_Suc)
        show ?thesis
          using IH guard
          by (simp add: b r parts_span [OF l body] dk case_prod_beta)
      qed
    qed
  qed
qed

lemma fillPlaceholders_render:
  "fillPlaceholders s args = render (fst (spec_parts s)) args @ snd (spec_parts s)"
proof (cases "length s = 0 \<or> length args = 0")
  case True
  then show ?thesis
    by (auto simp add: fillPlaceholders_def parts_empty render_no_args)
next
  case False
  obtain buf b k where run: "fillLoop args 0 [] s = (buf, b, k)"
    by (cases "fillLoop args 0 [] s") auto
  from fillLoop_render [OF run]
  have "buf @ b = render (fst (spec_parts s)) args @ snd (spec_parts s)"
    by simp
  with False run show ?thesis
    by (auto simp add: fillPlaceholders_def)
qed

lemma argsConsumed_min:
  "argsConsumed s args = min (length args) (length (fst (spec_parts s)))"
proof (cases "length s = 0 \<or> length args = 0")
  case True
  then show ?thesis
    by (auto simp add: argsConsumed_def parts_empty)
next
  case False
  obtain buf b k where run: "fillLoop args 0 [] s = (buf, b, k)"
    by (cases "fillLoop args 0 [] s") auto
  from fillLoop_render [OF run] False run show ?thesis
    by (simp add: argsConsumed_def)
qed

subsection \<open>Decimal numerals\<close>

lemma digit_of_digits:
  assumes "d < 10"
  shows "digit_value (digits ! d) = int d \<and> digits ! d \<noteq> CHR ''-''"
proof -
  from assms have "d = 0 \<or> d = 1 \<or> d = 2 \<or> d = 3 \<or> d = 4 \<or> d = 5 \<or> d = 6 \<or> d = 7
      \<or> d = 8 \<or> d = 9"
    by arith
  then show ?thesis
    by (elim disjE) (simp_all add: digits_def digit_value_def)
qed

lemma formatUint_shape: "formatUint u \<noteq> [] \<and> CHR ''-'' \<notin> set (formatUint u)"
proof (induction u rule: formatUint.induct)
  case (1 u)
  show ?case
  proof (cases "u < 10")
    case True
    then show ?thesis
      using digit_of_digits [of u] by (auto simp add: formatUint.simps [of u])
  next
    case False
    have "u mod 10 < 10" by simp
    with False "1.IH" digit_of_digits [of "u mod 10"] show ?thesis
      by (auto simp add: formatUint.simps [of u])
  qed
qed

lemma unsigned_value_formatUint: "unsigned_value (formatUint u) = int u"
proof (induction u rule: formatUint.induct)
  case (1 u)
  show ?case
  proof (cases "u < 10")
    case True
    then show ?thesis
      using digit_of_digits [of u] by (simp add: formatUint.simps [of u] unsigned_value_def)
  next
    case False
    have m: "u mod 10 < 10" by simp
    from False "1.IH" have "unsigned_value (formatUint (u div 10)) = int (u div 10)"
      by simp
    then have "unsigned_value (formatUint u) = 10 * int (u div 10) + int (u mod 10)"
      using False digit_of_digits [OF m]
      by (simp add: formatUint.simps [of u] unsigned_value_def)
    also have "\<dots> = int u"
      by (simp add: zdiv_int zmod_int)
    finally show ?thesis .
  qed
qed

lemma FormatInt_nonempty: "FormatInt i \<noteq> []"
  using formatUint_shape by (simp add: FormatInt_def)

lemma decimal_value_FormatInt: "spec_decimal_value (FormatInt i) = i"
proof (cases "i < 0")
  case True
  then show ?thesis
    by (simp add: FormatInt_def spec_decimal_value_def unsigned_value_formatUint)
next
  case False
  obtain c cs where f: "formatUint (nat i) = c # cs"
    using formatUint_shape [of "nat i"] by (cases "formatUint (nat i)") auto
  with formatUint_shape [of "nat i"] have "c \<noteq> CHR ''-''" by auto
  with False f unsigned_value_formatUint [of "nat i"] show ?thesis
    by (simp add: FormatInt_def spec_decimal_value_def)
qed

subsection \<open>Texts with separators\<close>

lemma separated_Cons:
  "spec_separated sep (x # xs) = (if xs = [] then x else x @ sep @ spec_separated sep xs)"
  by (cases xs) simp_all

lemma JoinIDs_loop_separated:
  "JoinIDs_loop ids buf =
     (if ids = [] then buf
      else (if buf = [] then [] else buf @ '';'') @ spec_separated '';'' (map Itoa ids))"
proof (induction ids arbitrary: buf)
  case Nil
  then show ?case by simp
next
  case (Cons i ids)
  let ?buf1 = "AppendInt (if length buf > 0 then buf @ '';'' else buf) (sint i)"
  have b1: "?buf1 = (if buf = [] then [] else buf @ '';'') @ Itoa i"
    by (simp add: AppendInt_def Itoa_def)
  have ne: "?buf1 \<noteq> []"
    using FormatInt_nonempty by (simp add: AppendInt_def)
  have "JoinIDs_loop (i # ids) buf = JoinIDs_loop ids ?buf1" by simp
  also have "\<dots> = (if ids = [] then ?buf1
                   else (if ?buf1 = [] then [] else ?buf1 @ '';'')
                          @ spec_separated '';'' (map Itoa ids))"
    by (rule Cons.IH)
  also have "\<dots> = (if buf = [] then [] else buf @ '';'')
                     @ spec_separated '';'' (map Itoa (i # ids))"
    using FormatInt_nonempty [of "sint i"]
    by (simp add: AppendInt_def Itoa_def separated_Cons)
  finally show ?case by simp
qed

subsection \<open>The values of a request\<close>

lemma update_fresh: "k \<notin> fst ` set al \<Longrightarrow> AList.update k v al = al @ [(k, v)]"
  by (induction al) auto

lemma keys_emit_fresh [simp]: "k' \<noteq> k \<Longrightarrow> k' \<notin> fst ` set (emit b k x)"
  by (auto simp add: emit_def)

lemma as_values_append [simp]:
  "as_values (xs @ ys) = as_values xs @ as_values ys"
  by (simp add: as_values_def)

lemma keys_as_values [simp]: "map fst (as_values ps) = map fst ps"
  by (simp add: as_values_def case_prod_beta)

lemma key_set_as_values: "fst ` set (as_values ps) = fst ` set ps"
  by (induction ps) (auto simp add: as_values_def)

lemma Values_Set_fresh:
  "k \<notin> fst ` set ps \<Longrightarrow> Values_Set (as_values ps) k x = as_values (ps @ [(k, x)])"
  by (simp add: Values_Set_def update_fresh key_set_as_values) (simp add: as_values_def)

lemma set_fresh:
  assumes "k \<notin> fst ` set ps"
  shows "(if b then Values_Set (as_values ps) k x else as_values ps)
           = as_values (ps @ emit b k x)"
  using Values_Set_fresh [OF assms] by (simp add: emit_def) (simp add: as_values_def)

lemma let_set_fresh:
  assumes "k \<notin> fst ` set ps"
  shows "Let (as_values ps) (\<lambda>vals. Let (if b then Values_Set vals k x else vals) f)
           = Let (as_values (ps @ emit b k x)) f"
  using set_fresh [OF assms, of b x] by (simp add: Let_def)

lemma Params_values_pairs: "Params_values p = as_values (params_pairs p)"
proof -
  let ?v0 = "[(''site'', Site p)]"
  let ?v1 = "?v0 @ emit (Sort p \<noteq> '''') ''sort'' (Sort p)"
  let ?v2 = "?v1 @ emit (Order p \<noteq> '''') ''order'' (Order p)"
  let ?v3 = "?v2 @ emit (Params.Page p \<noteq> 0) ''page'' (Itoa (Params.Page p))"
  let ?v4 = "?v3 @ emit (Params.PageSize p \<noteq> 0) ''pagesize'' (Itoa (Params.PageSize p))"
  let ?v5 = "?v4 @ emit (Filter p \<noteq> '''') ''filter'' (Filter p)"
  let ?v6 = "?v5 @ emit (Tagged p \<noteq> '''') ''tagged'' (Tagged p)"
  have s0: "[(''site'', [Site p])] = as_values ?v0" by (simp add: as_values_def)
  have f1: "''sort'' \<notin> fst ` set ?v0" by simp
  have f2: "''order'' \<notin> fst ` set ?v1" by (simp add: image_Un)
  have f3: "''page'' \<notin> fst ` set ?v2" by (simp add: image_Un)
  have f4: "''pagesize'' \<notin> fst ` set ?v3" by (simp add: image_Un)
  have f5: "''filter'' \<notin> fst ` set ?v4" by (simp add: image_Un)
  have f6: "''tagged'' \<notin> fst ` set ?v5" by (simp add: image_Un)
  have "Params_values p = (let vals = as_values ?v6 in vals)"
    unfolding Params_values_def s0
    by (simp only: let_set_fresh [OF f1] let_set_fresh [OF f2] let_set_fresh [OF f3]
          let_set_fresh [OF f4] let_set_fresh [OF f5] let_set_fresh [OF f6])
  then show ?thesis
    by (simp add: params_pairs_def)
qed

lemma params_pairs_no_credentials:
  "''access_token'' \<notin> fst ` set (params_pairs p)" "''key'' \<notin> fst ` set (params_pairs p)"
  by (simp_all add: params_pairs_def image_Un)

lemma request_values_None:
  "Params_values p = as_values (request_pairs None p)"
  by (simp add: Params_values_pairs request_pairs_def has_token_def has_key_def emit_def)

lemma request_values_Some:
  "(if Key c' \<noteq> ''''
    then Values_Set
           (if AccessToken c' \<noteq> ''''
            then Values_Set (Params_values p) ''access_token'' (AccessToken c')
            else Params_values p)
           ''key'' (Key c')
    else (if AccessToken c' \<noteq> ''''
          then Values_Set (Params_values p) ''access_token'' (AccessToken c')
          else Params_values p))
   = as_values (request_pairs (Some c') p)"
proof -
  let ?t = "emit (has_token (Some c')) ''access_token'' (token_of (Some c'))"
  have t: "(if AccessToken c' \<noteq> ''''
            then Values_Set (Params_values p) ''access_token'' (AccessToken c')
            else Params_values p) = as_values (params_pairs p @ ?t)"
    using set_fresh [OF params_pairs_no_credentials(1) [of p], of "has_token (Some c')"
        "AccessToken c'"]
    by (auto simp add: Params_values_pairs has_token_def token_of_def emit_def as_values_def
        split: if_splits)
  have fresh: "''key'' \<notin> fst ` set (params_pairs p @ ?t)"
    using params_pairs_no_credentials(2) [of p] by (simp add: image_Un)
  show ?thesis
    unfolding t
    using set_fresh [OF fresh, of "has_key (Some c')" "Key c'"]
    by (auto simp add: request_pairs_def has_key_def key_of_def emit_def as_values_def
        split: if_splits)
qed

lemma spec_root_eq:
  "(case c of None \<Rightarrow> Root | Some c' \<Rightarrow> if Root' c' \<noteq> '''' then Root' c' else Root) = spec_root c"
  by (cases c) (simp_all add: spec_root_def Root_def Version_def)

lemma Do_request_Some:
  "Do_request range_order d c path (Some p) g =
     Inr (chosen_client d c, built_url range_order c path p, c, Some p,
          printed (built_url range_order c path p) g)"
proof (cases c)
  case None
  show ?thesis
    unfolding Do_request_def Let_def spec_root_eq
    by (simp add: None request_values_None [symmetric] built_url_def chosen_client_def
        printed_def)
next
  case (Some c')
  show ?thesis
    unfolding Do_request_def Let_def spec_root_eq
    by (simp only: Some option.case request_values_Some built_url_def chosen_client_def
        printed_def)
qed

subsection \<open>Encoding\<close>

lemma fold_pairs:
  assumes "\<And>k x. (k, x) \<in> set qs \<Longrightarrow> Values_Get v k = [x]"
  shows "fold (\<lambda>k buf. fold (writePair (QueryEscape k)) (Values_Get v k) buf) (map fst qs) buf =
           (if qs = [] then buf
            else (if buf = [] then [] else buf @ ''&'') @ spec_separated ''&'' (map spec_pair qs))"
  using assms
proof (induction qs arbitrary: buf)
  case Nil
  then show ?case by simp
next
  case (Cons q qs)
  obtain k x where q: "q = (k, x)" by (cases q)
  have g: "Values_Get v k = [x]" using Cons.prems [of k x] by (simp add: q)
  let ?buf1 = "writePair (QueryEscape k) x buf"
  have b1: "?buf1 = (if buf = [] then [] else buf @ ''&'') @ spec_pair q"
    by (simp add: writePair_def spec_pair_def q)
  have ne: "?buf1 \<noteq> []" by (simp add: writePair_def)
  have IH: "fold (\<lambda>k buf. fold (writePair (QueryEscape k)) (Values_Get v k) buf) (map fst qs) ?buf1 =
           (if qs = [] then ?buf1
            else (if ?buf1 = [] then [] else ?buf1 @ ''&'') @ spec_separated ''&'' (map spec_pair qs))"
    using Cons.prems by (intro Cons.IH) simp
  show ?case
    using IH ne by (simp add: q g b1 separated_Cons)
qed

lemma Values_Encode_order:
  assumes "\<forall>ks. mset (range_order ks) = mset ks"
  shows "Values_Encode range_order v =
           (if length v = 0 then ''''
            else fold (\<lambda>k buf. fold (writePair (QueryEscape k)) (Values_Get v k) buf)
                   (sort (map fst v)) '''')"
proof -
  have "mset (sort (map fst v)) = mset (range_order (map fst v))"
    using assms by simp
  then have "sort (range_order (map fst v)) = sort (map fst v)"
    by (intro properties_for_sort) simp_all
  then show ?thesis
    by (simp add: Values_Encode_def)
qed

lemma Values_Encode_as_values:
  assumes perm: "\<forall>ks. mset (range_order ks) = mset ks"
    and ms: "mset qs = mset ps"
    and st: "sorted_wrt (<) (map fst qs)"
  shows "Values_Encode range_order (as_values ps) = spec_separated ''&'' (map spec_pair qs)"
proof -
  let ?v = "as_values ps"
  have sd: "sorted (map fst qs)" "distinct (map fst qs)"
    using st strict_sorted_iff by blast+
  have keq: "mset (map fst qs) = mset (map fst ps)"
    using ms by simp
  then have keys: "sort (map fst ps) = map fst qs"
    using sd(1) by (intro properties_for_sort) simp_all
  have dist: "distinct (map fst ?v)"
    using mset_eq_imp_distinct_iff [OF keq] sd(2) by simp
  have get: "Values_Get ?v k = [x]" if "(k, x) \<in> set qs" for k x
  proof -
    from that mset_eq_setD [OF ms] have "(k, x) \<in> set ps" by simp
    then have "(k, [x]) \<in> set ?v" by (force simp add: as_values_def)
    with dist have "map_of ?v k = Some [x]" by (rule map_of_is_SomeI)
    then show ?thesis by (simp add: Values_Get_def)
  qed
  have empty: "ps = [] \<longleftrightarrow> qs = []"
    using mset_eq_length [OF ms] by auto
  show ?thesis
  proof (cases "ps = []")
    case True
    with empty show ?thesis
      by (simp add: Values_Encode_def as_values_def)
  next
    case False
    with empty have "qs \<noteq> []" by simp
    moreover from False have "length ?v \<noteq> 0" by (simp add: as_values_def)
    ultimately show ?thesis
      using fold_pairs [of qs ?v "''''"] get
      by (simp add: Values_Encode_order [OF perm] keys)
  qed
qed

lemma strict_emit:
  "sorted_wrt (<) (map fst (emit b k x @ rest)) =
     (sorted_wrt (<) (map fst rest) \<and> (b \<longrightarrow> (\<forall>y\<in>fst ` set rest. k < y)))"
  by (auto simp add: emit_def)

lemma strict_emit_last: "sorted_wrt (<) (map fst (emit b k x))"
  by (simp add: emit_def)

lemma ball_emit: "(\<forall>y\<in>set (emit b k x). P y) = (b \<longrightarrow> P (k, x))"
  by (auto simp add: emit_def)

lemma spec_query_strict: "sorted_wrt (<) (map fst (spec_query c p))"
  unfolding spec_query_def
  by (simp add: strict_emit strict_emit_last ball_emit image_Un ball_Un del: map_append)

lemma spec_query_mset: "mset (spec_query c p) = mset (request_pairs c p)"
  by (simp add: spec_query_def request_pairs_def params_pairs_def ac_simps)

lemma built_url_sorted:
  assumes "\<forall>ks. mset (range_order ks) = mset ks"
  shows "built_url range_order c path p =
           spec_root c @ fillPlaceholders path (Args p) @ ''?''
             @ spec_separated ''&'' (map spec_pair (spec_query c p))"
  unfolding built_url_def
  using Values_Encode_as_values [OF assms spec_query_mset spec_query_strict]
  by simp

subsection \<open>Looking up a key\<close>

lemma as_values_Cons [simp]: "as_values ((k, x) # ps) = (k, [x]) # as_values ps"
  by (simp add: as_values_def)

lemma lookup_emit:
  "map_of (as_values (emit b k x) @ vs) k' = (if b \<and> k' = k then Some [x] else map_of vs k')"
  by (simp add: emit_def as_values_def)

lemma lookup_emit_last:
  "map_of (as_values (emit b k x)) k' = (if b \<and> k' = k then Some [x] else None)"
  by (simp add: emit_def as_values_def)

lemma keys_emit_sub: "fst ` set (emit b k x) \<subseteq> S \<longleftrightarrow> (b \<longrightarrow> k \<in> S)"
  by (auto simp add: emit_def)

lemma mem_emit: "(k', v) \<in> set (emit b k x) \<longleftrightarrow> b \<and> k' = k \<and> v = x"
  by (auto simp add: emit_def)

lemma key_emit: "k' \<in> fst ` set (emit b k x) \<longleftrightarrow> b \<and> k' = k"
  by (auto simp add: emit_def)

lemma params_pairs_distinct: "distinct (map fst (params_pairs p))"
proof -
  let ?c = "None :: unit Client option"
  have "request_pairs ?c p = params_pairs p"
    by (simp add: request_pairs_def has_token_def has_key_def emit_def)
  with spec_query_mset [of ?c p] have "mset (map fst (spec_query ?c p)) = mset (map fst (params_pairs p))"
    by simp
  from mset_eq_imp_distinct_iff [OF this] spec_query_strict [of ?c p] show ?thesis
    using strict_sorted_iff by blast
qed

lemma has_token_iff: "has_token c \<longleftrightarrow> (\<exists>c'. c = Some c' \<and> AccessToken c' \<noteq> '''')"
  by (cases c) (simp_all add: has_token_def)

lemma has_key_iff: "has_key c \<longleftrightarrow> (\<exists>c'. c = Some c' \<and> Key c' \<noteq> '''')"
  by (cases c) (simp_all add: has_key_def)

lemma built_url_order:
  assumes "\<forall>ks. mset (r1 ks) = mset ks" and "\<forall>ks. mset (r2 ks) = mset ks"
  shows "built_url r1 c path p = built_url r2 c path p"
  by (simp add: built_url_def Values_Encode_order [OF assms(1)] Values_Encode_order [OF assms(2)])

text \<open>Without parameters the request panics, whatever the client.\<close>

lemma Do_request_nil_params:
  "Do_request range_order d c path None g = Inl NilPointerDereference"
  by (simp add: Do_request_def)

subsection \<open>The decoder on a well-typed object\<close>

lemma digits_value_eq:
  "foldl (\<lambda>a c. 10 * a + (int (of_char c) - 48)) 0 ds = unsigned_value ds"
  by (simp add: unsigned_value_def digit_value_def)

lemma not_digit_plus: "\<not> isDigit (CHR ''+'')" "\<not> isDigit (CHR ''-'')" "\<not> isDigit (CHR ''n'')"
  by (simp_all add: isDigit_def inRange_def)

lemma spec_integer_cases:
  assumes "spec_integer x = Some i"
  shows "(\<exists>t. x = CHR ''-'' # t \<and> t \<noteq> [] \<and> list_all isDigit t \<and> i = - unsigned_value t)
         \<or> (x \<noteq> [] \<and> list_all isDigit x \<and> i = unsigned_value x)"
proof (cases x)
  case Nil
  with assms show ?thesis by (simp add: spec_integer_def)
next
  case (Cons c t)
  show ?thesis
  proof (cases "c = CHR ''-''")
    case True
    with Cons assms show ?thesis
      by (auto simp add: spec_integer_def Let_def split: if_splits)
  next
    case False
    with Cons assms show ?thesis
      by (auto simp add: spec_integer_def Let_def split: if_splits)
  qed
qed

lemma spec_integer_null: "spec_integer ''null'' = None"
  by (simp add: spec_integer_def Let_def not_digit_plus)

lemma intField_integer:
  assumes "spec_integer x = Some i" and "- (2 ^ 63) \<le> i" and "i < 2 ^ 63"
  shows "intField x = Stored (word_of_int i)"
proof -
  from spec_integer_cases [OF assms(1)] show ?thesis
  proof (elim disjE exE conjE)
    fix t
    assume "x = CHR ''-'' # t" "t \<noteq> []" "list_all isDigit t" "i = - unsigned_value t"
    with assms(2,3) show ?thesis
      by (simp add: intField_def ParseInt_def digits_value_eq Let_def)
  next
    assume x: "x \<noteq> []" and all: "list_all isDigit x" and i: "i = unsigned_value x"
    then obtain c t where ct: "x = c # t" by (cases x) auto
    with all have d: "isDigit c" by simp
    then have c: "c \<noteq> CHR ''+''" "c \<noteq> CHR ''n''" "c \<noteq> CHR ''-''"
      using not_digit_plus by auto
    with ct have sign: "take 1 x \<noteq> ''-''" "take 1 x \<noteq> ''+''" by simp_all
    from x all i assms(2,3) sign have "ParseInt x = Some i"
      by (simp add: ParseInt_def digits_value_eq Let_def)
    with ct c d show ?thesis
      by (simp add: intField_def)
  qed
qed

lemma sint_in_range:
  "- (2 ^ 63) \<le> i \<Longrightarrow> i < 2 ^ 63 \<Longrightarrow> sint (word_of_int i :: go_int) = i"
  by (simp add: sint_sbintrunc' signed_take_bit_int_eq_self)

lemma spec_accepts_range:
  assumes "spec_accepts Integer x" and "spec_integer x = Some i"
  shows "- (2 ^ 63) \<le> i \<and> i < 2 ^ 63"
proof -
  from assms(2) have "x \<noteq> ''null''"
    using spec_integer_null by auto
  with assms show ?thesis
    by (simp add: spec_accepts_def)
qed

lemma intField_typed: "spec_accepts Integer x \<Longrightarrow> intField x \<noteq> Mismatch"
proof -
  assume a: "spec_accepts Integer x"
  show ?thesis
  proof (cases "x = ''null''")
    case True
    then show ?thesis by (simp add: intField_def)
  next
    case False
    with a obtain i where "spec_integer x = Some i" "- (2 ^ 63) \<le> i" "i < 2 ^ 63"
      by (auto simp add: spec_accepts_def split: option.splits)
    from intField_integer [OF this] show ?thesis by simp
  qed
qed

lemma stringField_string: "spec_string x = Some n \<Longrightarrow> stringField x = Stored n"
  by (cases x) (auto simp add: spec_string_def stringField_def split: if_splits)

text \<open>The literal of a text of plain characters is the text between quotes.\<close>

lemma unquote_plain: "list_all spec_plain s \<Longrightarrow> unquote s = s"
proof (induction s)
  case Nil
  show ?case by (subst unquote.simps) simp
next
  case (Cons c t)
  then have "unquote t = t" and "c \<noteq> CHR 0x5C" and "(of_char c :: nat) < 0x80"
    by (simp_all add: spec_plain_def)
  then show ?case by (subst unquote.simps) simp
qed

lemma spec_string_plain:
  "list_all spec_plain n \<Longrightarrow> spec_string (CHR 0x22 # n @ [CHR 0x22]) = Some n"
  by (simp add: spec_string_def unquote_plain)

lemma stringField_typed: "spec_accepts Text x \<Longrightarrow> stringField x \<noteq> Mismatch"
proof -
  assume a: "spec_accepts Text x"
  show ?thesis
  proof (cases "x = ''null''")
    case True
    then show ?thesis by (simp add: stringField_def)
  next
    case False
    with a obtain n where "spec_string x = Some n"
      by (auto simp add: spec_accepts_def)
    from stringField_string [OF this] show ?thesis by simp
  qed
qed

lemma boolField_typed: "spec_accepts Boolean x \<Longrightarrow> boolField x \<noteq> Mismatch"
  by (auto simp add: spec_accepts_def boolField_def)

lemma assign_typed:
  "x \<noteq> Mismatch \<Longrightarrow> \<exists>res'. assign update x (res, saved) = (res', saved)"
  by (cases x) (simp_all add: assign_def)

text \<open>A well-typed member of a field other than the items is stored without an error.\<close>

lemma storeField_typed:
  assumes "spec_accepts (spec_kind f) x" and "f \<noteq> FItems"
  shows "\<exists>res'. storeField cb f x (res, saved) = Inr (res', saved) \<and> Items res' = Items res"
proof -
  note typed = intField_typed stringField_typed boolField_typed
  show ?thesis
    using assms
    by (cases f) (auto simp add: storeField_def assign_def dest!: typed split: stored.splits)
qed

lemma storeMembers_typed:
  assumes "list_all spec_member_typed ms"
    and "spec_items_accepted json_Unmarshal (Items res) ms"
  shows "\<exists>res'. storeMembers (items_UnmarshalJSON json_Unmarshal) ms (res, saved)
                  = Inr (res', saved)"
  using assms
proof (induction ms arbitrary: res)
  case Nil
  then show ?case by simp
next
  case (Cons m ms)
  obtain key x where m: "m = (key, x)" by (cases m)
  show ?case
  proof (cases "findField (unquote key)")
    case None
    with Cons m show ?thesis by simp
  next
    case (Some f)
    show ?thesis
    proof (cases "f = FItems")
      case True
      with Cons.prems(2) m Some obtain v'
        where u: "json_Unmarshal x (Items res) = (v', None)"
          and rest: "spec_items_accepted json_Unmarshal v' ms"
        by (auto split: prod.splits option.splits)
      have step: "storeField (items_UnmarshalJSON json_Unmarshal) FItems x (res, saved)
                    = Inr (res\<lparr>Items := v'\<rparr>, saved)"
        by (simp add: storeField_def items_UnmarshalJSON_def u)
      from Cons.prems(1) have "list_all spec_member_typed ms" by simp
      from Cons.IH [OF this, of "res\<lparr>Items := v'\<rparr>"] rest
      show ?thesis
        by (simp add: m Some True step)
    next
      case False
      from Cons.prems(1) m Some have "spec_accepts (spec_kind f) x"
        by (simp add: spec_member_typed_def)
      from storeField_typed [OF this False, of "items_UnmarshalJSON json_Unmarshal" res saved]
      obtain res' where step: "storeField (items_UnmarshalJSON json_Unmarshal) f x (res, saved)
                                 = Inr (res', saved)"
        and same: "Items res' = Items res"
        by blast
      from Cons.prems(2) m Some False
      have "spec_items_accepted json_Unmarshal (Items res') ms"
        by (simp add: same)
      moreover from Cons.prems(1) have "list_all spec_member_typed ms" by simp
      ultimately show ?thesis
        using Cons.IH [of res'] by (simp add: m Some step)
    qed
  qed
qed

text \<open>
  The last member that names a field decides the field: \<open>p\<close> reads the field, members
  of other fields leave it, and the member \<open>x\<close> gives it the value \<open>a\<close>.
\<close>

lemma storeMembers_untouched:
  assumes "storeMembers cb ms st = Inr st'" and "spec_member f ms = None"
    and pres: "\<And>g y st st1. g \<noteq> f \<Longrightarrow> storeField cb g y st = Inr st1 \<Longrightarrow> p (fst st1) = p (fst st)"
  shows "p (fst st') = p (fst st)"
  using assms(1,2)
proof (induction ms arbitrary: st)
  case Nil
  then show ?case by simp
next
  case (Cons m ms)
  obtain key y where m: "m = (key, y)" by (cases m)
  from Cons.prems(2) m have none: "spec_member f ms = None"
    and other: "findField (unquote key) \<noteq> Some f"
    by (auto split: option.splits if_splits)
  show ?case
  proof (cases "findField (unquote key)")
    case None
    with Cons.prems(1) m have "storeMembers cb ms st = Inr st'" by simp
    from Cons.IH [OF this none] show ?thesis .
  next
    case (Some g)
    with Cons.prems(1) m obtain st1 where step: "storeField cb g y st = Inr st1"
      and run: "storeMembers cb ms st1 = Inr st'"
      by (auto split: sum.splits)
    from other Some have "g \<noteq> f" by simp
    from pres [OF this step] Cons.IH [OF run none] show ?thesis by simp
  qed
qed

lemma storeMembers_last:
  assumes "storeMembers cb ms st = Inr st'" and "spec_member f ms = Some x"
    and hit: "\<And>st st1. storeField cb f x st = Inr st1 \<Longrightarrow> p (fst st1) = a"
    and pres: "\<And>g y st st1. g \<noteq> f \<Longrightarrow> storeField cb g y st = Inr st1 \<Longrightarrow> p (fst st1) = p (fst st)"
  shows "p (fst st') = a"
  using assms(1,2)
proof (induction ms arbitrary: st)
  case Nil
  then show ?case by simp
next
  case (Cons m ms)
  obtain key y where m: "m = (key, y)" by (cases m)
  show ?case
  proof (cases "spec_member f ms")
    case (Some x')
    with Cons.prems(2) m have later: "spec_member f ms = Some x" by simp
    from Cons.prems(1) m obtain st1 where "storeMembers cb ms st1 = Inr st'"
      by (auto split: option.splits sum.splits)
    from Cons.IH [OF this later] show ?thesis .
  next
    case None
    with Cons.prems(2) m have here: "findField (unquote key) = Some f" and y: "y = x"
      by (auto split: if_splits)
    with Cons.prems(1) m obtain st1 where step: "storeField cb f x st = Inr st1"
      and run: "storeMembers cb ms st1 = Inr st'"
      by (auto split: sum.splits)
    from storeMembers_untouched [OF run None, of p] pres have "p (fst st') = p (fst st1)"
      by blast
    with hit [OF step] show ?thesis by simp
  qed
qed

lemma spec_member_in:
  "spec_member f ms = Some x \<Longrightarrow> \<exists>key. (key, x) \<in> set ms \<and> findField (unquote key) = Some f"
proof (induction ms)
  case Nil
  then show ?case by simp
next
  case (Cons m ms)
  obtain key y where m: "m = (key, y)" by (cases m)
  show ?case
  proof (cases "spec_member f ms")
    case (Some x')
    with Cons m show ?thesis by auto
  next
    case None
    with Cons.prems m show ?thesis by (auto split: if_splits)
  qed
qed

lemma pres_ErrorID:
  "g \<noteq> FErrorID \<Longrightarrow> storeField cb g y st = Inr st1 \<Longrightarrow> ErrorID (fst st1) = ErrorID (fst st)"
  by (cases g)
    (auto simp add: storeField_def assign_def split: stored.splits prod.splits option.splits)

lemma pres_ErrorName:
  "g \<noteq> FErrorName \<Longrightarrow> storeField cb g y st = Inr st1 \<Longrightarrow> ErrorName (fst st1) = ErrorName (fst st)"
  by (cases g)
    (auto simp add: storeField_def assign_def split: stored.splits prod.splits option.splits)

lemma pres_ErrorMessage:
  "g \<noteq> FErrorMessage \<Longrightarrow> storeField cb g y st = Inr st1
     \<Longrightarrow> ErrorMessage (fst st1) = ErrorMessage (fst st)"
  by (cases g)
    (auto simp add: storeField_def assign_def split: stored.splits prod.splits option.splits)

lemma objectMembers_brace: "objectMembers raw = Some ms \<Longrightarrow> \<exists>t. raw = CHR ''{'' # t"
  by (cases raw) (auto simp add: objectMembers_def split: if_splits)

section \<open>The claims\<close>

subsection \<open>Placeholder substitution\<close>

text \<open>
  C1. Let a template have \<open>P\<close> complete \<^verbatim>\<open>{...}\<close> spans, read from left to right, and
  let there be \<open>A\<close> arguments. The template is its parts written out (first conjunct),
  a literal holds no \<^verbatim>\<open>{\<close>, a span is \<^verbatim>\<open>{\<close>, a body without \<^verbatim>\<open>}\<close> and \<^verbatim>\<open>}\<close>, and the
  tail holds no further complete span. If \<open>A \<ge> P\<close>, \<^verbatim>\<open>fillPlaceholders\<close> replaces
  every span by the argument at its position, uses the first \<open>P\<close> arguments only and
  copies all other text. If \<open>A < P\<close>, it replaces the first \<open>A\<close> spans and copies the
  remaining spans, braces included, and all other text. The two examples of the
  specification hold.
\<close>

theorem fillPlaceholders_positional:
  "s = spec_verbatim (fst (spec_parts s)) @ snd (spec_parts s)
   \<and> (\<forall>(lit, span) \<in> set (fst (spec_parts s)).
         CHR ''{'' \<notin> set lit
         \<and> (\<exists>body. span = CHR ''{'' # body @ ''}'' \<and> CHR ''}'' \<notin> set body))
   \<and> \<not> (\<exists>u v w. snd (spec_parts s) = u @ CHR ''{'' # v @ CHR ''}'' # w)
   \<and> (length (fst (spec_parts s)) \<le> length args \<longrightarrow>
        fillPlaceholders s args =
          spec_substituted (fst (spec_parts s)) (take (length (fst (spec_parts s))) args)
            @ snd (spec_parts s))
   \<and> (length args < length (fst (spec_parts s)) \<longrightarrow>
        fillPlaceholders s args =
          spec_substituted (take (length args) (fst (spec_parts s))) args
            @ spec_verbatim (drop (length args) (fst (spec_parts s)))
            @ snd (spec_parts s))
   \<and> argsConsumed s args = min (length args) (length (fst (spec_parts s)))
   \<and> fillPlaceholders ''/questions/{ids}/answers'' [''1;2;3''] = ''/questions/1;2;3/answers''
   \<and> fillPlaceholders ''/answers/{ids}/comments'' [] = ''/answers/{ids}/comments''"
proof -
  let ?segs = "fst (spec_parts s)" and ?rest = "snd (spec_parts s)"
  have dec: "s = spec_verbatim ?segs @ ?rest"
    using render_no_args [of s] by (simp add: render_split spec_substituted_def)
  have wf: "\<forall>(lit, span) \<in> set ?segs.
         CHR ''{'' \<notin> set lit
         \<and> (\<exists>body. span = CHR ''{'' # body @ ''}'' \<and> CHR ''}'' \<notin> set body)"
    using parts_wf [of _ _ s] by blast
  have rest: "\<not> (\<exists>u v w. ?rest = u @ CHR ''{'' # v @ CHR ''}'' # w)"
    using parts_rest [of s] by (simp only: span_after_open not_False_eq_True)
  have zip1: "zip ?segs (take (length ?segs) args) = zip ?segs args"
    by (rule zip_take_right)
  have zip2: "zip (take (length args) ?segs) args = zip ?segs args"
    by (rule zip_take_left)
  have all: "length ?segs \<le> length args \<Longrightarrow>
        fillPlaceholders s args = spec_substituted ?segs (take (length ?segs) args) @ ?rest"
    by (simp add: fillPlaceholders_render render_split spec_substituted_def zip1
        spec_verbatim_def)
  have some: "length args < length ?segs \<Longrightarrow>
        fillPlaceholders s args =
          spec_substituted (take (length args) ?segs) args
            @ spec_verbatim (drop (length args) ?segs) @ ?rest"
    by (simp add: fillPlaceholders_render render_split spec_substituted_def zip2)
  have used: "argsConsumed s args = min (length args) (length ?segs)"
    by (rule argsConsumed_min)
  have ex1: "fillPlaceholders ''/questions/{ids}/answers'' [''1;2;3'']
               = ''/questions/1;2;3/answers''"
    by code_simp
  have ex2: "fillPlaceholders ''/answers/{ids}/comments'' [] = ''/answers/{ids}/comments''"
    by code_simp
  from dec wf rest all some used ex1 ex2 show ?thesis by blast
qed

theorem fillPlaceholders_positional_witness:
  "length (fst (spec_parts ''/a/{x}/b/{y}/c'')) \<le> length [''1'', ''2'', ''3'']
   \<and> fillPlaceholders ''/a/{x}/b/{y}/c'' [''1'', ''2'', ''3''] = ''/a/1/b/2/c''
   \<and> length [''1''] < length (fst (spec_parts ''/a/{x}/b/{y}/c''))
   \<and> fillPlaceholders ''/a/{x}/b/{y}/c'' [''1''] = ''/a/1/b/{y}/c''
   \<and> (''/a/'', ''{x}'') \<in> set (fst (spec_parts ''/a/{x}/b/{y}/c''))"
proof -
  have p: "spec_parts ''/a/{x}/b/{y}/c'' = ([(''/a/'', ''{x}''), (''/b/'', ''{y}'')], ''/c'')"
    by code_simp
  from fillPlaceholders_positional [of "''/a/{x}/b/{y}/c''" "[''1'', ''2'', ''3'']"]
  have a: "fillPlaceholders ''/a/{x}/b/{y}/c'' [''1'', ''2'', ''3''] = ''/a/1/b/2/c''"
    by (simp add: p spec_substituted_def)
  from fillPlaceholders_positional [of "''/a/{x}/b/{y}/c''" "[''1'']"]
  have b: "fillPlaceholders ''/a/{x}/b/{y}/c'' [''1''] = ''/a/1/b/{y}/c''"
    by (simp add: p spec_substituted_def spec_verbatim_def)
  from a b show ?thesis by (simp add: p)
qed

text \<open>
  C10. Let the template hold a \<^verbatim>\<open>{\<close> that no \<^verbatim>\<open>}\<close> follows, and let there be an
  argument. Then the output is the output for the text before that \<^verbatim>\<open>{\<close>, followed by
  the \<^verbatim>\<open>{\<close> and all text behind it unchanged, and the number of arguments used is the
  number used for the text before it. In the loop: when an argument is left and the next
  \<^verbatim>\<open>{\<close> of the remaining template is followed by no \<^verbatim>\<open>}\<close>, the loop ends there with
  \<^verbatim>\<open>argIdx\<close> as it was and the \<^verbatim>\<open>{\<close> and the text behind it left to be copied.
\<close>

theorem unmatched_open_stops:
  assumes "CHR ''}'' \<notin> set suf" and "args \<noteq> []"
  shows "fillPlaceholders (pre @ CHR ''{'' # suf) args
           = fillPlaceholders pre args @ CHR ''{'' # suf
         \<and> argsConsumed (pre @ CHR ''{'' # suf) args = argsConsumed pre args
         \<and> (\<forall>k buf lit. k < length args \<and> CHR ''{'' \<notin> set lit \<longrightarrow>
               fillLoop args k buf (lit @ CHR ''{'' # suf) = (buf @ lit, CHR ''{'' # suf, k))"
proof -
  have a: "fillPlaceholders (pre @ CHR ''{'' # suf) args
             = fillPlaceholders pre args @ CHR ''{'' # suf"
    by (simp add: fillPlaceholders_render parts_append_unmatched [OF assms(1)])
  have b: "argsConsumed (pre @ CHR ''{'' # suf) args = argsConsumed pre args"
    by (simp add: argsConsumed_min parts_append_unmatched [OF assms(1)])
  have c: "fillLoop args k buf (lit @ CHR ''{'' # suf) = (buf @ lit, CHR ''{'' # suf, k)"
    if k: "k < length args" and lit: "CHR ''{'' \<notin> set lit" for k buf lit
  proof -
    have i: "IndexByte (lit @ CHR ''{'' # suf) CHR ''{'' = Some (length lit)"
      using lit by (rule IndexByte_first)
    have n: "IndexByte suf CHR ''}'' = None"
      using assms(1) by (simp add: IndexByte_None)
    show ?thesis
      using k by (subst fillLoop.simps) (simp add: i n)
  qed
  from a b c show ?thesis by blast
qed

theorem unmatched_open_stops_witness:
  "CHR ''}'' \<notin> set ''y/c'' \<and> [''1'', ''2''] \<noteq> []
   \<and> fillPlaceholders ''/a/{x}/b/{y/c'' [''1'', ''2''] = ''/a/1/b/{y/c''
   \<and> argsConsumed ''/a/{x}/b/{y/c'' [''1'', ''2''] = 1"
proof -
  have h: "CHR ''}'' \<notin> set ''y/c''" by simp
  have n: "[''1'', ''2''] \<noteq> ([] :: string list)" by simp
  have e: "fillPlaceholders ''/a/{x}/b/'' [''1'', ''2''] = ''/a/1/b/''" by code_simp
  have f: "argsConsumed ''/a/{x}/b/'' [''1'', ''2''] = 1" by code_simp
  from unmatched_open_stops [OF h n, of "''/a/{x}/b/''"] e f h show ?thesis by simp
qed

subsection \<open>Joining identifiers\<close>

text \<open>
  C6. \<^verbatim>\<open>JoinIDs\<close> returns the decimal numerals of the identifiers in their order with
  one \<^verbatim>\<open>;\<close> between neighbours; each numeral denotes its identifier. The three
  examples of the specification hold.
\<close>

theorem JoinIDs_separated:
  "JoinIDs ids = spec_separated '';'' (map Itoa ids)
   \<and> (\<forall>i. spec_decimal_value (Itoa i) = sint i)
   \<and> JoinIDs [1, 2, 3] = ''1;2;3''
   \<and> JoinIDs [] = ''''
   \<and> JoinIDs [42] = ''42''"
proof -
  have a: "JoinIDs ids = spec_separated '';'' (map Itoa ids)"
    by (simp add: JoinIDs_def JoinIDs_loop_separated)
  have b: "\<forall>i. spec_decimal_value (Itoa i) = sint i"
    by (simp add: Itoa_def decimal_value_FormatInt)
  have c: "JoinIDs [1, 2, 3] = ''1;2;3''" by code_simp
  have d: "JoinIDs [] = ''''" by code_simp
  have e: "JoinIDs [42] = ''42''" by code_simp
  from a b c d e show ?thesis by blast
qed

theorem JoinIDs_separated_witness:
  "JoinIDs [7, - 15, 0] = ''7;-15;0'' \<and> spec_decimal_value (Itoa (- 15)) = - 15"
proof -
  have s: "spec_separated '';'' (map Itoa [7, - 15, 0]) = ''7;-15;0''" by code_simp
  have v: "sint (- 15 :: go_int) = - 15" by simp
  from JoinIDs_separated [of "[7, - 15, 0]"] s v show ?thesis by simp
qed

subsection \<open>Serializing the parameters\<close>

text \<open>
  C4. \<^verbatim>\<open>values()\<close> always holds the key \<^verbatim>\<open>site\<close> with the field's value, also when it
  is empty; each of \<^verbatim>\<open>sort\<close>, \<^verbatim>\<open>order\<close>, \<^verbatim>\<open>page\<close>, \<^verbatim>\<open>pagesize\<close>, \<^verbatim>\<open>filter\<close> and
  \<^verbatim>\<open>tagged\<close> is a key exactly when its field is not the zero value, and then holds that
  value, the two numbers as decimal numerals; there is no other key and no key twice. When
  the site is not empty and every other field is zero, the only key is \<^verbatim>\<open>site\<close>.
\<close>

theorem Params_values_nondefault:
  "map_of (Params_values p) ''site'' = Some [Site p]
   \<and> map_of (Params_values p) ''sort'' = (if Sort p = '''' then None else Some [Sort p])
   \<and> map_of (Params_values p) ''order'' = (if Order p = '''' then None else Some [Order p])
   \<and> map_of (Params_values p) ''page''
        = (if Params.Page p = 0 then None else Some [Itoa (Params.Page p)])
   \<and> map_of (Params_values p) ''pagesize''
        = (if Params.PageSize p = 0 then None else Some [Itoa (Params.PageSize p)])
   \<and> map_of (Params_values p) ''filter'' = (if Filter p = '''' then None else Some [Filter p])
   \<and> map_of (Params_values p) ''tagged'' = (if Tagged p = '''' then None else Some [Tagged p])
   \<and> fst ` set (Params_values p)
        \<subseteq> {''site'', ''sort'', ''order'', ''page'', ''pagesize'', ''filter'', ''tagged''}
   \<and> distinct (map fst (Params_values p))
   \<and> (\<forall>i. spec_decimal_value (Itoa i) = sint i)
   \<and> (Site p \<noteq> '''' \<and> Sort p = '''' \<and> Order p = '''' \<and> Params.Page p = 0
        \<and> Params.PageSize p = 0 \<and> Filter p = '''' \<and> Tagged p = '''' \<longrightarrow>
      Params_values p = [(''site'', [Site p])] \<and> map fst (Params_values p) = [''site''])"
proof -
  note look = Params_values_pairs params_pairs_def lookup_emit lookup_emit_last
  have site: "map_of (Params_values p) ''site'' = Some [Site p]"
    by (simp add: look del: map_of_append)
  have sort: "map_of (Params_values p) ''sort'' = (if Sort p = '''' then None else Some [Sort p])"
    by (simp add: look del: map_of_append)
  have order: "map_of (Params_values p) ''order''
                 = (if Order p = '''' then None else Some [Order p])"
    by (simp add: look del: map_of_append)
  have page: "map_of (Params_values p) ''page''
                = (if Params.Page p = 0 then None else Some [Itoa (Params.Page p)])"
    by (simp add: look del: map_of_append)
  have pagesize: "map_of (Params_values p) ''pagesize''
                = (if Params.PageSize p = 0 then None else Some [Itoa (Params.PageSize p)])"
    by (simp add: look del: map_of_append)
  have filter: "map_of (Params_values p) ''filter''
                  = (if Filter p = '''' then None else Some [Filter p])"
    by (simp add: look del: map_of_append)
  have tagged: "map_of (Params_values p) ''tagged''
                  = (if Tagged p = '''' then None else Some [Tagged p])"
    by (simp add: look del: map_of_append)
  have keys: "fst ` set (Params_values p)
        \<subseteq> {''site'', ''sort'', ''order'', ''page'', ''pagesize'', ''filter'', ''tagged''}"
    unfolding Params_values_pairs key_set_as_values params_pairs_def
    by (simp add: image_Un keys_emit_sub)
  have dist: "distinct (map fst (Params_values p))"
    by (simp add: Params_values_pairs params_pairs_distinct)
  have dec: "\<forall>i. spec_decimal_value (Itoa i) = sint i"
    by (simp add: Itoa_def decimal_value_FormatInt)
  have only: "Site p \<noteq> '''' \<and> Sort p = '''' \<and> Order p = '''' \<and> Params.Page p = 0
        \<and> Params.PageSize p = 0 \<and> Filter p = '''' \<and> Tagged p = '''' \<longrightarrow>
      Params_values p = [(''site'', [Site p])] \<and> map fst (Params_values p) = [''site'']"
    by (simp add: Params_values_pairs params_pairs_def emit_def as_values_def)
  show ?thesis
    by (intro conjI site sort order page pagesize filter tagged keys dist dec only)
qed

theorem Params_values_nondefault_witness:
  "Params_values \<lparr>Site = ''stackoverflow'', Sort = '''', Order = '''', Page = 0, PageSize = 0,
                  Filter = '''', Tagged = '''', Args = [''1'']\<rparr>
     = [(''site'', [''stackoverflow''])]
   \<and> map_of (Params_values example_params) ''page'' = Some [''2'']
   \<and> map_of (Params_values example_params) ''pagesize'' = None"
proof -
  let ?p = "\<lparr>Site = ''stackoverflow'', Sort = '''', Order = '''', Page = 0, PageSize = 0,
             Filter = '''', Tagged = '''', Args = [''1'']\<rparr>"
  have two: "Itoa 2 = ''2''" by code_simp
  from Params_values_nondefault [of ?p]
  have a: "Params_values ?p = [(''site'', [''stackoverflow''])]"
    by simp
  from Params_values_nondefault [of example_params] two
  have b: "map_of (Params_values example_params) ''page'' = Some [''2'']
           \<and> map_of (Params_values example_params) ''pagesize'' = None"
    by (simp add: example_params_def)
  from a b show ?thesis by simp
qed

subsection \<open>The URL of a request\<close>

text \<open>
  C5. With parameters present, and whatever the order in which \<^verbatim>\<open>range\<close> walks the
  map, the URL is the root, the substituted path, \<^verbatim>\<open>?\<close> and the pairs of the query,
  escaped, joined by \<^verbatim>\<open>&\<close> and in the strictly increasing order of their keys. The
  root is the identity's when it is not empty and the constant
  \<^verbatim>\<open>https://api.stackexchange.com/2.1\<close> otherwise. \<^verbatim>\<open>access_token\<close> and \<^verbatim>\<open>key\<close> are in
  the query exactly when the identity is there and its field is not empty, with the
  field's value; \<^verbatim>\<open>site\<close> always is.
\<close>

theorem Do_request_url:
  assumes "\<forall>ks. mset (range_order ks) = mset ks"
  shows "request_url (Do_request range_order http_DefaultClient c path (Some p) g) =
           Inr (spec_root c @ fillPlaceholders path (Args p) @ ''?''
                  @ spec_separated ''&'' (map spec_pair (spec_query c p)))
         \<and> sorted_wrt (<) (map fst (spec_query c p))
         \<and> (\<forall>v. (''access_token'', v) \<in> set (spec_query c p)
                \<longleftrightarrow> (\<exists>c'. c = Some c' \<and> AccessToken c' \<noteq> '''' \<and> v = AccessToken c'))
         \<and> (\<forall>v. (''key'', v) \<in> set (spec_query c p)
                \<longleftrightarrow> (\<exists>c'. c = Some c' \<and> Key c' \<noteq> '''' \<and> v = Key c'))
         \<and> (''access_token'' \<in> fst ` set (spec_query c p)
                \<longleftrightarrow> (\<exists>c'. c = Some c' \<and> AccessToken c' \<noteq> ''''))
         \<and> (''key'' \<in> fst ` set (spec_query c p)
                \<longleftrightarrow> (\<exists>c'. c = Some c' \<and> Key c' \<noteq> ''''))
         \<and> (''site'', Site p) \<in> set (spec_query c p)
         \<and> (c = None \<longrightarrow> spec_root c = Root)
         \<and> (\<forall>c'. c = Some c' \<longrightarrow> spec_root c = (if Root' c' = '''' then Root else Root' c'))
         \<and> Root = ''https://api.stackexchange.com/2.1''"
proof -
  have url: "request_url (Do_request range_order http_DefaultClient c path (Some p) g) =
           Inr (spec_root c @ fillPlaceholders path (Args p) @ ''?''
                  @ spec_separated ''&'' (map spec_pair (spec_query c p)))"
    by (simp add: Do_request_Some request_url_def built_url_sorted [OF assms])
  have strict: "sorted_wrt (<) (map fst (spec_query c p))"
    by (rule spec_query_strict)
  have tok: "\<forall>v. (''access_token'', v) \<in> set (spec_query c p)
                \<longleftrightarrow> (\<exists>c'. c = Some c' \<and> AccessToken c' \<noteq> '''' \<and> v = AccessToken c')"
    by (cases c) (auto simp add: spec_query_def mem_emit has_token_def token_of_def)
  have key: "\<forall>v. (''key'', v) \<in> set (spec_query c p)
                \<longleftrightarrow> (\<exists>c'. c = Some c' \<and> Key c' \<noteq> '''' \<and> v = Key c')"
    by (cases c) (auto simp add: spec_query_def mem_emit has_key_def key_of_def)
  have tokk: "''access_token'' \<in> fst ` set (spec_query c p)
                \<longleftrightarrow> (\<exists>c'. c = Some c' \<and> AccessToken c' \<noteq> '''')"
    by (simp add: spec_query_def image_Un key_emit has_token_iff)
  have keyk: "''key'' \<in> fst ` set (spec_query c p)
                \<longleftrightarrow> (\<exists>c'. c = Some c' \<and> Key c' \<noteq> '''')"
    by (simp add: spec_query_def image_Un key_emit has_key_iff)
  have site: "(''site'', Site p) \<in> set (spec_query c p)"
    by (simp add: spec_query_def)
  have root: "Root = ''https://api.stackexchange.com/2.1''"
    by (simp add: Root_def Version_def)
  have r1: "c = None \<longrightarrow> spec_root c = Root"
    by (simp add: spec_root_def root)
  have r2: "\<forall>c'. c = Some c' \<longrightarrow> spec_root c = (if Root' c' = '''' then Root else Root' c')"
    by (simp add: spec_root_def root)
  show ?thesis
    by (intro conjI url strict tok key tokk keyk site r1 r2 root)
qed

theorem Do_request_url_witness:
  "(\<forall>ks :: string list. mset (rev ks) = mset ks)
   \<and> request_url (Do_request rev (0 :: nat) (Some example_client) ''/questions/{ids}/answers''
        (Some example_params) loud)
     = Inr ''http://x/questions/1;2;3/answers?access_token=tok&filter=%21a%26b&key=k%3D1&page=2&site=stack+overflow&sort=votes''"
proof -
  have perm: "\<forall>ks :: string list. mset (rev ks) = mset ks" by simp
  have e: "spec_root (Some example_client)
             @ fillPlaceholders ''/questions/{ids}/answers'' (Args example_params) @ ''?''
             @ spec_separated ''&'' (map spec_pair (spec_query (Some example_client) example_params))
           = ''http://x/questions/1;2;3/answers?access_token=tok&filter=%21a%26b&key=k%3D1&page=2&site=stack+overflow&sort=votes''"
    by code_simp
  have "request_url (Do_request rev (0 :: nat) (Some example_client) ''/questions/{ids}/answers''
        (Some example_params) loud)
     = Inr (spec_root (Some example_client)
             @ fillPlaceholders ''/questions/{ids}/answers'' (Args example_params) @ ''?''
             @ spec_separated ''&'' (map spec_pair (spec_query (Some example_client) example_params)))"
    by (rule conjunct1 [OF Do_request_url [OF perm]])
  with e perm show ?thesis by simp
qed

text \<open>
  C7. The URL of a request is a function of the client, the path and the parameters
  alone. Go leaves the order in which \<^verbatim>\<open>range\<close> walks a map unspecified, and the package
  has a global variable \<^verbatim>\<open>Verbose\<close>: whatever the two walks, the two default HTTP clients
  and the two states of the globals, two requests built from the same client, path and
  parameters have the same URL (or both panic), and \<^verbatim>\<open>Encode\<close> gives the same text.
\<close>

theorem request_url_deterministic:
  assumes "\<forall>ks. mset (r1 ks) = mset ks" and "\<forall>ks. mset (r2 ks) = mset ks"
  shows "request_url (Do_request r1 d1 c path params g1)
           = request_url (Do_request r2 d2 c path params g2)
         \<and> Values_Encode r1 v = Values_Encode r2 v"
proof -
  have enc: "Values_Encode r1 v = Values_Encode r2 v"
    by (simp add: Values_Encode_order [OF assms(1)] Values_Encode_order [OF assms(2)])
  have url: "request_url (Do_request r1 d1 c path params g1)
           = request_url (Do_request r2 d2 c path params g2)"
  proof (cases params)
    case None
    then show ?thesis by (simp add: Do_request_def request_url_def)
  next
    case (Some p)
    then show ?thesis
      by (simp add: Do_request_Some request_url_def built_url_order [OF assms])
  qed
  from url enc show ?thesis by (rule conjI)
qed

theorem request_url_deterministic_witness:
  "(\<forall>ks :: string list. mset (rev ks) = mset ks)
   \<and> (\<forall>ks :: string list. mset (rotate1 ks) = mset ks)
   \<and> request_url (Do_request rev (0 :: nat) (Some example_client) ''/answers/{ids}''
        (Some example_params) quiet)
     = request_url (Do_request rotate1 (1 :: nat) (Some example_client) ''/answers/{ids}''
        (Some example_params) loud)"
proof -
  have p1: "\<forall>ks :: string list. mset (rev ks) = mset ks" by simp
  have p2: "\<forall>ks :: string list. mset (rotate1 ks) = mset ks"
  proof
    fix ks :: "string list"
    show "mset (rotate1 ks) = mset ks" by (cases ks) simp_all
  qed
  have "request_url (Do_request rev (0 :: nat) (Some example_client) ''/answers/{ids}''
        (Some example_params) quiet)
     = request_url (Do_request rotate1 (1 :: nat) (Some example_client) ''/answers/{ids}''
        (Some example_params) loud)"
    by (rule conjunct1 [OF request_url_deterministic [OF p1 p2]])
  with p1 p2 show ?thesis by (intro conjI)
qed

text \<open>
  C8. With a \<^verbatim>\<open>nil\<close> client, as \<^verbatim>\<open>DefaultClient\<close> is, and parameters present, the
  request is built without a panic: the HTTP client is the default one, the root is the
  constant \<^verbatim>\<open>Root\<close>, and the query is that of \<^verbatim>\<open>values()\<close>, which holds neither
  \<^verbatim>\<open>access_token\<close> nor \<^verbatim>\<open>key\<close>. \<^verbatim>\<open>Do\<close> of the package is \<^verbatim>\<open>Do\<close> of the \<^verbatim>\<open>nil\<close> client,
  and it returns.
\<close>

theorem nil_client_defaults:
  "(\<exists>g'. Do_request range_order http_DefaultClient None path (Some p) g =
           Inr (http_DefaultClient,
                Root @ fillPlaceholders path (Args p) @ ''?''
                  @ Values_Encode range_order (Params_values p),
                None, Some p, g'))
   \<and> ''access_token'' \<notin> fst ` set (Params_values p)
   \<and> ''key'' \<notin> fst ` set (Params_values p)
   \<and> (\<exists>res. Client_Do range_order http_DefaultClient http_Get json_Decode json_Unmarshal
               None path v (Some p) g = Inr res)
   \<and> Do range_order http_DefaultClient http_Get json_Decode json_Unmarshal path v params g
       = Client_Do range_order http_DefaultClient http_Get json_Decode json_Unmarshal
           None path v params g"
proof -
  let ?req = "Root @ fillPlaceholders path (Args p) @ ''?''
                @ Values_Encode range_order (Params_values p)"
  have run: "Do_request range_order http_DefaultClient None path (Some p) g =
           Inr (http_DefaultClient, ?req, None, Some p,
                if Verbose g then g\<lparr>stdout := stdout g @ [?req]\<rparr> else g)"
    by (simp add: Do_request_def Let_def)
  then have a: "\<exists>g'. Do_request range_order http_DefaultClient None path (Some p) g =
           Inr (http_DefaultClient, ?req, None, Some p, g')"
    by (rule exI)
  have b: "''access_token'' \<notin> fst ` set (Params_values p)"
    and c: "''key'' \<notin> fst ` set (Params_values p)"
    by (simp_all add: Params_values_pairs key_set_as_values params_pairs_no_credentials)
  have d: "\<exists>res. Client_Do range_order http_DefaultClient http_Get json_Decode json_Unmarshal
               None path v (Some p) g = Inr res"
  proof (cases "http_Get http_DefaultClient ?req")
    case (Inl err)
    then show ?thesis by (simp add: Client_Do_def run)
  next
    case (Inr body)
    then have "Client_Do range_order http_DefaultClient http_Get json_Decode json_Unmarshal
               None path v (Some p) g
          = Inr (parseResponse json_Decode json_Unmarshal body v, None, Some p,
                 if Verbose g then g\<lparr>stdout := stdout g @ [?req]\<rparr> else g)"
      by (simp add: Client_Do_def run)
    then show ?thesis ..
  qed
  have e: "Do range_order http_DefaultClient http_Get json_Decode json_Unmarshal path v params g
       = Client_Do range_order http_DefaultClient http_Get json_Decode json_Unmarshal
           None path v params g"
    by (simp add: Do_def DefaultClient_def)
  show ?thesis
    by (intro conjI a b c d e)
qed

theorem nil_client_defaults_witness:
  "(\<exists>g'. Do_request rev (7 :: nat) None ''/questions/{ids}/answers'' (Some example_params) quiet =
           Inr (7, ''https://api.stackexchange.com/2.1/questions/1;2;3/answers?filter=%21a%26b&page=2&site=stack+overflow&sort=votes'',
                None, Some example_params, g'))"
proof -
  have e: "Root @ fillPlaceholders ''/questions/{ids}/answers'' (Args example_params) @ ''?''
             @ Values_Encode rev (Params_values example_params)
           = ''https://api.stackexchange.com/2.1/questions/1;2;3/answers?filter=%21a%26b&page=2&site=stack+overflow&sort=votes''"
    by code_simp
  have "\<exists>g'. Do_request rev (7 :: nat) None ''/questions/{ids}/answers'' (Some example_params) quiet =
           Inr (7, Root @ fillPlaceholders ''/questions/{ids}/answers'' (Args example_params) @ ''?''
                     @ Values_Encode rev (Params_values example_params),
                None, Some example_params, g')"
    by (rule conjunct1 [OF nil_client_defaults])
  then show ?thesis
    unfolding e .
qed

text \<open>
  C9. Building a request leaves what the client pointer and the parameter pointer point
  to as they were, and leaves \<^verbatim>\<open>Verbose\<close> as it was; so does the whole of \<^verbatim>\<open>Do\<close>, whatever
  the transport and the decoder do.
\<close>

theorem request_leaves_inputs:
  "(\<forall>client req c' params' g'.
       Do_request range_order http_DefaultClient c path params g
         = Inr (client, req, c', params', g')
       \<longrightarrow> c' = c \<and> params' = params \<and> Verbose g' = Verbose g)
   \<and> (\<forall>out c' params' g'.
       Client_Do range_order http_DefaultClient http_Get json_Decode json_Unmarshal
           c path v params g
         = Inr (out, c', params', g')
       \<longrightarrow> c' = c \<and> params' = params \<and> Verbose g' = Verbose g)"
proof (cases params)
  case None
  then show ?thesis
    by (simp add: Do_request_def Client_Do_def)
next
  case (Some p)
  let ?req = "built_url range_order c path p"
  have run: "Do_request range_order http_DefaultClient c path params g =
     Inr (chosen_client http_DefaultClient c, ?req, c, params, printed ?req g)"
    by (simp add: Some Do_request_Some)
  have v: "Verbose (printed ?req g) = Verbose g"
    by (simp add: printed_def)
  have a: "\<forall>client req c' params' g'.
       Do_request range_order http_DefaultClient c path params g
         = Inr (client, req, c', params', g')
       \<longrightarrow> c' = c \<and> params' = params \<and> Verbose g' = Verbose g"
    using v by (simp add: run)
  have b: "\<forall>out c' params' g'.
       Client_Do range_order http_DefaultClient http_Get json_Decode json_Unmarshal
           c path v params g
         = Inr (out, c', params', g')
       \<longrightarrow> c' = c \<and> params' = params \<and> Verbose g' = Verbose g"
    using v
    by (cases "http_Get (chosen_client http_DefaultClient c) ?req")
      (auto simp add: Client_Do_def run)
  from a b show ?thesis by (rule conjI)
qed

theorem request_leaves_inputs_witness:
  "\<exists>client req g'.
     Do_request rev (7 :: nat) (Some example_client) ''/answers/{ids}'' (Some example_params) loud
       = Inr (client, req, Some example_client, Some example_params, g')
     \<and> Verbose g' = Verbose loud"
proof -
  let ?req = "built_url rev (Some example_client) ''/answers/{ids}'' example_params"
  have run: "Do_request rev (7 :: nat) (Some example_client) ''/answers/{ids}''
               (Some example_params) loud
             = Inr (chosen_client 7 (Some example_client), ?req, Some example_client,
                    Some example_params, printed ?req loud)"
    by (rule Do_request_Some)
  from conjunct1 [OF request_leaves_inputs, of rev 7 "Some example_client" "''/answers/{ids}''"
      "Some example_params" loud] run
  have "Verbose (printed ?req loud) = Verbose loud"
    by blast
  with run show ?thesis by blast
qed

subsection \<open>Decoding a response\<close>

text \<open>
  C2. Whatever the decoder does with the input and the destination, and whether it
  reports an error or not, \<^verbatim>\<open>parseResponse\<close> returns a \<^verbatim>\<open>Wrapper\<close> that is not
  \<^verbatim>\<open>nil\<close>, filled from the struct as the decoder left it, together with the decoder's
  error.
\<close>

theorem parseResponse_always_wrapper:
  assumes "json_Decode r (items_UnmarshalJSON json_Unmarshal) (zero_result v) = (res, err)"
  shows "\<exists>w. parseResponse json_Decode json_Unmarshal r v = (Some w, err, Items res)
           \<and> ID (Error w) = ErrorID res
           \<and> Name (Error w) = ErrorName res
           \<and> Message (Error w) = ErrorMessage res
           \<and> Wrapper.Page w = result.Page res
           \<and> Wrapper.PageSize w = result.PageSize res
           \<and> Wrapper.HasMore w = result.HasMore res
           \<and> Wrapper.Backoff w = result.Backoff res
           \<and> Wrapper.QuotaMax w = result.QuotaMax res
           \<and> Wrapper.QuotaRemaining w = result.QuotaRemaining res
           \<and> Wrapper.Total w = result.Total res
           \<and> Wrapper.Type w = result.Type res"
  using assms by (simp add: parseResponse_def)

theorem parseResponse_always_wrapper_witness:
  "\<exists>w. parseResponse example_Decode example_Unmarshal ''{\"items\":['' ()
          = (Some w, Some ''unexpected end of JSON input'', ())
        \<and> ID (Error w) = 0"
proof -
  have run: "example_Decode ''{\"items\":['' (items_UnmarshalJSON example_Unmarshal) (zero_result ())
               = (zero_result (), Some ''unexpected end of JSON input'')"
    by (simp add: example_Decode_def example_envelope_def)
  from parseResponse_always_wrapper [where json_Decode = example_Decode
      and json_Unmarshal = example_Unmarshal and v = "()", OF run]
  show ?thesis
    by (auto simp add: zero_result_def)
qed

subsection \<open>The application-level error\<close>

text \<open>
  Outside the well-formed envelopes the decoder reports an error: for a text that ends
  too early, and for an object with a member that is not of its field's type, where the
  members of the right type are stored all the same.
\<close>

lemma truncated_envelope_is_decode_error:
  "Decoder_Decode ''{\"error_id\":400,\"error_name\":\"bad_parameter\",\"error_mess''
     (items_UnmarshalJSON example_RawMessage) (zero_result [])
   = (zero_result [], Some InputError)"
  by code_simp

lemma mistyped_member_is_decode_error:
  "Decoder_Decode ''{\"error_id\":400,\"error_name\":\"bad_parameter\",\"page\":\"1\"}''
     (items_UnmarshalJSON example_RawMessage) (zero_result [])
   = ((zero_result []) \<lparr>ErrorID := 400, ErrorName := ''bad_parameter''\<rparr>,
      Some UnmarshalTypeError)"
  by code_simp

text \<open>
  C3. Let the input hold a JSON object as its first value, and let the object be a
  well-formed envelope for the destination: every member whose key names a field of the
  struct is \<^verbatim>\<open>null\<close> or a value of the field's type, and the destination accepts the
  items. Let the error fields be set: the last members that name \<^verbatim>\<open>error_id\<close>,
  \<^verbatim>\<open>error_name\<close> and \<^verbatim>\<open>error_message\<close> are the numeral of \<open>i\<close> and the string literals of
  \<open>n\<close> and \<open>m\<close>. Then \<^verbatim>\<open>parseResponse\<close>, with the decoder of \<^verbatim>\<open>encoding/json\<close>, returns
  no error and a \<^verbatim>\<open>Wrapper\<close> whose error descriptor holds \<open>i\<close>, \<open>n\<close> and \<open>m\<close>, whatever
  these values are.
\<close>

theorem envelope_error_is_no_decode_error:
  assumes "readValue r = Some raw" and "objectMembers raw = Some ms"
    and "list_all spec_member_typed ms"
    and "spec_items_accepted json_Unmarshal v ms"
    and "spec_member FErrorID ms = Some xi" and "spec_integer xi = Some i"
    and "spec_member FErrorName ms = Some xn" and "spec_string xn = Some n"
    and "spec_member FErrorMessage ms = Some xm" and "spec_string xm = Some m"
  shows "\<exists>w v'. parseResponse Decoder_Decode json_Unmarshal r v = (Some w, None, v')
           \<and> sint (ID (Error w)) = i \<and> Name (Error w) = n \<and> Message (Error w) = m"
proof -
  let ?cb = "items_UnmarshalJSON json_Unmarshal"
  from storeMembers_typed [OF assms(3), of json_Unmarshal "zero_result v" None] assms(4)
  obtain res where run: "storeMembers ?cb ms (zero_result v, None) = Inr (res, None)"
    by (auto simp add: zero_result_def)
  from objectMembers_brace [OF assms(2)] obtain t where raw: "raw = CHR ''{'' # t"
    by blast
  have dec: "Decoder_Decode r ?cb (zero_result v) = (res, None)"
    using assms(1,2) run raw by (simp add: Decoder_Decode_def unmarshalValue_def)
  from spec_member_in [OF assms(5)] obtain key
    where "(key, xi) \<in> set ms" "findField (unquote key) = Some FErrorID"
    by blast
  with assms(3) have "spec_accepts Integer xi"
    by (auto simp add: list_all_iff spec_member_typed_def)
  from spec_accepts_range [OF this assms(6)]
  have range: "- (2 ^ 63) \<le> i \<and> i < 2 ^ 63" .
  then have field: "intField xi = Stored (word_of_int i)"
    using intField_integer [OF assms(6)] by simp
  have "ErrorID (fst (res, None :: json_error option)) = word_of_int i"
  proof (rule storeMembers_last [OF run assms(5)])
    fix st st1 :: "'a result \<times> json_error option"
    assume "storeField ?cb FErrorID xi st = Inr st1"
    then show "ErrorID (fst st1) = word_of_int i"
      by (auto simp add: storeField_def assign_def field)
  next
    fix g y and st st1 :: "'a result \<times> json_error option"
    assume "g \<noteq> FErrorID" "storeField ?cb g y st = Inr st1"
    then show "ErrorID (fst st1) = ErrorID (fst st)" by (rule pres_ErrorID)
  qed
  then have id: "sint (ErrorID res) = i"
    using range by (simp add: sint_in_range)
  have "ErrorName (fst (res, None :: json_error option)) = n"
  proof (rule storeMembers_last [OF run assms(7)])
    fix st st1 :: "'a result \<times> json_error option"
    assume "storeField ?cb FErrorName xn st = Inr st1"
    then show "ErrorName (fst st1) = n"
      by (auto simp add: storeField_def assign_def stringField_string [OF assms(8)])
  next
    fix g y and st st1 :: "'a result \<times> json_error option"
    assume "g \<noteq> FErrorName" "storeField ?cb g y st = Inr st1"
    then show "ErrorName (fst st1) = ErrorName (fst st)" by (rule pres_ErrorName)
  qed
  then have name: "ErrorName res = n" by simp
  have "ErrorMessage (fst (res, None :: json_error option)) = m"
  proof (rule storeMembers_last [OF run assms(9)])
    fix st st1 :: "'a result \<times> json_error option"
    assume "storeField ?cb FErrorMessage xm st = Inr st1"
    then show "ErrorMessage (fst st1) = m"
      by (auto simp add: storeField_def assign_def stringField_string [OF assms(10)])
  next
    fix g y and st st1 :: "'a result \<times> json_error option"
    assume "g \<noteq> FErrorMessage" "storeField ?cb g y st = Inr st1"
    then show "ErrorMessage (fst st1) = ErrorMessage (fst st)" by (rule pres_ErrorMessage)
  qed
  then have message: "ErrorMessage res = m" by simp
  from id name message show ?thesis
    by (simp add: parseResponse_def dec)
qed

text \<open>
  The envelope of the example, and an envelope with items, a key in another case, two
  more members for \<^verbatim>\<open>error_id\<close>, a member that names no field, and text after the object.
\<close>

theorem envelope_error_is_no_decode_error_witness:
  "(\<exists>w v'. parseResponse Decoder_Decode example_RawMessage example_envelope [] = (Some w, None, v')
      \<and> sint (ID (Error w)) = 400 \<and> Name (Error w) = ''bad_parameter''
      \<and> Message (Error w) = ''x'')
   \<and> (\<exists>w v'. parseResponse Decoder_Decode example_RawMessage example_items_envelope []
              = (Some w, None, v')
      \<and> sint (ID (Error w)) = - 7 \<and> Name (Error w) = ''throttle_violation''
      \<and> Message (Error w) = ''too many requests'')"
proof
  let ?ms = "[(''error_id'', ''400''), (''error_name'', ''\"bad_parameter\"''),
              (''error_message'', ''\"x\"'')]"
  have r: "readValue example_envelope = Some example_envelope"
    by code_simp
  have o: "objectMembers example_envelope = Some ?ms"
    by code_simp
  have t: "list_all spec_member_typed ?ms"
    by code_simp
  have a: "spec_items_accepted example_RawMessage [] ?ms"
    by code_simp
  have i: "spec_member FErrorID ?ms = Some ''400''" "spec_integer ''400'' = Some 400"
    by code_simp+
  have n: "spec_member FErrorName ?ms = Some ''\"bad_parameter\"''"
    "spec_string ''\"bad_parameter\"'' = Some ''bad_parameter''"
    by code_simp+
  have m: "spec_member FErrorMessage ?ms = Some ''\"x\"''" "spec_string ''\"x\"'' = Some ''x''"
    by code_simp+
  from envelope_error_is_no_decode_error [OF r o t a i n m]
  show "\<exists>w v'. parseResponse Decoder_Decode example_RawMessage example_envelope []
                  = (Some w, None, v')
          \<and> sint (ID (Error w)) = 400 \<and> Name (Error w) = ''bad_parameter''
          \<and> Message (Error w) = ''x''" .
next
  let ?raw = "''{\"items\":[{\"id\":1}], \"Error_ID\":502, \"error_name\":\"throttle_violation\", \"error_message\":\"too many requests\", \"error_id\":null, \"error_id\":-7, \"extra\":[\"error_name\"]}''"
  let ?ms = "[(''items'', ''[{\"id\":1}]''), (''Error_ID'', ''502''),
              (''error_name'', ''\"throttle_violation\"''),
              (''error_message'', ''\"too many requests\"''),
              (''error_id'', ''null''), (''error_id'', ''-7''),
              (''extra'', ''[\"error_name\"]'')]"
  have r: "readValue example_items_envelope = Some ?raw"
    by code_simp
  have o: "objectMembers ?raw = Some ?ms"
    by code_simp
  have t: "list_all spec_member_typed ?ms"
    by code_simp
  have a: "spec_items_accepted example_RawMessage [] ?ms"
    by code_simp
  have i: "spec_member FErrorID ?ms = Some ''-7''" "spec_integer ''-7'' = Some (- 7)"
    by code_simp+
  have n: "spec_member FErrorName ?ms = Some ''\"throttle_violation\"''"
    "spec_string ''\"throttle_violation\"'' = Some ''throttle_violation''"
    by code_simp+
  have m: "spec_member FErrorMessage ?ms = Some ''\"too many requests\"''"
    "spec_string ''\"too many requests\"'' = Some ''too many requests''"
    by code_simp+
  from envelope_error_is_no_decode_error [OF r o t a i n m]
  show "\<exists>w v'. parseResponse Decoder_Decode example_RawMessage example_items_envelope []
                  = (Some w, None, v')
          \<and> sint (ID (Error w)) = - 7 \<and> Name (Error w) = ''throttle_violation''
          \<and> Message (Error w) = ''too many requests''" .
qed


end
